theory Spec2Isabelle
  imports Complex_Main "HOL-Library.Sublist"
begin

section \<open>Python values used by the two modules\<close>

text \<open>
  Exceptions are values. Only instances of Python's \<open>Exception\<close> are modelled (the
  handlers of \<open>gemini_ai.py\<close> and \<open>init_admin.py\<close> are all \<open>except Exception\<close>);
  the class tag records whether the instance belongs to one of the three classes that
  the response probing of \<open>GeminiAI.generate\<close> names, or to none of them.
  \<open>exn_str e\<close> is \<open>str(e)\<close>.
\<close>

datatype exn_class = IndexError | AttributeError | ValueError | OtherException

datatype exn = Exn (exn_class: exn_class) (exn_str: string)

text \<open>Sequencing of computations that may raise: the first exception wins.\<close>

definition and_then :: "exn + 'a \<Rightarrow> ('a \<Rightarrow> exn + 'b) \<Rightarrow> exn + 'b" where
  "and_then m f = (case m of Inl e \<Rightarrow> Inl e | Inr v \<Rightarrow> f v)"

subsection \<open>Strings\<close>

text \<open>
  Strings are lists of 8-bit characters. \<open>str.lower\<close> is modelled on the ASCII letters,
  \<open>str.strip\<close> and \<open>str.split()\<close> on the ASCII characters for which
  \<open>str.isspace\<close> holds (tab, line feed, vertical tab, form feed, carriage return,
  the four separators 28 to 31, and space).
\<close>

definition lower_char :: "char \<Rightarrow> char" where
  "lower_char c =
     (if (65::nat) \<le> of_char c \<and> of_char c \<le> (90::nat)
      then char_of (of_char c + (32::nat)) else c)"

definition lower :: "string \<Rightarrow> string" where
  "lower s = map lower_char s"

definition isspace :: "char \<Rightarrow> bool" where
  "isspace c = ((of_char c :: nat) \<in> {9, 10, 11, 12, 13, 28, 29, 30, 31, 32})"

definition strip :: "string \<Rightarrow> string" where
  "strip s = rev (dropWhile isspace (rev (dropWhile isspace s)))"

text \<open>\<open>s.split(c)\<close> for a one-character separator: the empty string gives one empty field.\<close>

fun split_on :: "char \<Rightarrow> string \<Rightarrow> string list" where
  "split_on c [] = [[]]"
| "split_on c (x # xs) =
     (if x = c then [] # split_on c xs
      else (case split_on c xs of [] \<Rightarrow> [[x]] | w # ws \<Rightarrow> (x # w) # ws))"

text \<open>\<open>s.split()\<close>: the maximal runs of non-space characters; \<open>cur\<close> is the run being read.\<close>

fun split_ws_from :: "string \<Rightarrow> string \<Rightarrow> string list" where
  "split_ws_from cur [] = (if cur = [] then [] else [rev cur])"
| "split_ws_from cur (x # xs) =
     (if isspace x then (if cur = [] then split_ws_from [] xs else rev cur # split_ws_from [] xs)
      else split_ws_from (x # cur) xs)"

definition split_ws :: "string \<Rightarrow> string list" where
  "split_ws s = split_ws_from [] s"

text \<open>\<open>t in s\<close> on strings: \<open>t\<close> occurs in \<open>s\<close> as a contiguous block.\<close>

fun contains :: "string \<Rightarrow> string \<Rightarrow> bool" where
  "contains [] t = (t = [])"
| "contains (x # xs) t = (prefix t (x # xs) \<or> contains xs t)"

text \<open>\<open>sep.join(parts)\<close>.\<close>

fun join :: "string \<Rightarrow> string list \<Rightarrow> string" where
  "join sep [] = []"
| "join sep [p] = p"
| "join sep (p # q # ps) = p @ sep @ join sep (q # ps)"

definition newline :: string where
  "newline = [CHR 0x0A]"

section \<open>The Gemini client: \<open>services/gemini_ai.py\<close>\<close>

subsection \<open>State of a \<open>GeminiAI\<close> instance\<close>

text \<open>
  The fields of the instance, with the key configured in the \<open>genai\<close> module by
  \<open>genai.configure\<close> (\<open>genai_api_key\<close>) kept beside them; \<open>model\<close> is the model name
  the current \<open>GenerativeModel\<close> handle was built for. Both are set by
  \<open>_configure_current_key\<close>, which \<open>__init__\<close> runs before the instance exists
  for any caller. The cooldown table is the dictionary
  \<open>key_cooldowns\<close>. Timestamps (\<open>time.time()\<close>) are modelled as real numbers.
\<close>

record gemini =
  api_keys :: "string list"
  current_key_index :: nat
  key_cooldowns :: "nat \<rightharpoonup> real"
  cooldown_duration :: real
  model_name :: string
  genai_api_key :: string
  model :: string
  enabled :: bool

text \<open>
  \<open>_configure_current_key\<close>: \<open>self.api_keys[self.current_key_index]\<close> raises
  \<open>IndexError\<close> out of range; \<open>genai.configure\<close> and the construction of the
  \<open>GenerativeModel\<close> handle are local and taken not to raise.
\<close>

definition configure_current_key :: "gemini \<Rightarrow> (exn + unit) \<times> gemini" where
  "configure_current_key s =
     (if current_key_index s < length (api_keys s)
      then (Inr (), s\<lparr>genai_api_key := api_keys s ! current_key_index s,
                       model := model_name s\<rparr>)
      else (Inl (Exn IndexError ''list index out of range''), s))"

text \<open>\<open>self.key_cooldowns.get(i, 0)\<close>.\<close>

definition cooldown_get :: "(nat \<rightharpoonup> real) \<Rightarrow> nat \<Rightarrow> real" where
  "cooldown_get cd i = (case cd i of None \<Rightarrow> 0 | Some t \<Rightarrow> t)"

text \<open>
  The \<open>for _ in range(len(self.api_keys))\<close> loop of \<open>_rotate_key\<close>, with the number of
  iterations left as first argument. The result \<open>Inr True\<close> is the \<open>return True\<close> inside
  the loop, \<open>Inr False\<close> is the loop running to its end.
\<close>

fun rotate_scan :: "nat \<Rightarrow> real \<Rightarrow> gemini \<Rightarrow> (exn + bool) \<times> gemini" where
  "rotate_scan 0 current_time s = (Inr False, s)"
| "rotate_scan (Suc n) current_time s =
     (if length (api_keys s) = 0
      then (Inl (Exn OtherException ''integer modulo by zero''), s)
      else
        let s1 = s\<lparr>current_key_index := (current_key_index s + 1) mod length (api_keys s)\<rparr>;
            cooldown_time = cooldown_get (key_cooldowns s1) (current_key_index s1)
        in if current_time - cooldown_time \<ge> cooldown_duration s1
           then (case configure_current_key s1 of
                   (Inl e, s2) \<Rightarrow> (Inl e, s2)
                 | (Inr _, s2) \<Rightarrow> (Inr True, s2))
           else rotate_scan n current_time s1)"

text \<open>\<open>_rotate_key\<close>; \<open>current_time\<close> is the reading of \<open>time.time()\<close> the call makes.\<close>

definition rotate_key :: "real \<Rightarrow> gemini \<Rightarrow> (exn + bool) \<times> gemini" where
  "rotate_key current_time s =
     (if length (api_keys s) \<le> 1 then (Inr False, s)
      else
        let original_index = current_key_index s;
            s1 = s\<lparr>key_cooldowns := (key_cooldowns s)(current_key_index s \<mapsto> current_time)\<rparr>
        in (case rotate_scan (length (api_keys s1)) current_time s1 of
              (Inl e, s2) \<Rightarrow> (Inl e, s2)
            | (Inr True, s2) \<Rightarrow> (Inr True, s2)
            | (Inr False, s2) \<Rightarrow> (Inr False, s2\<lparr>current_key_index := original_index\<rparr>)))"

subsection \<open>Construction\<close>

text \<open>
  \<open>__init__\<close>, as a function of the two environment variables \<open>GEMINI_API_KEYS\<close> and
  \<open>GEMINI_API_KEY\<close> (\<open>os.getenv\<close> with default \<open>""\<close>). An exception of
  \<open>_configure_current_key\<close> is logged and raised again.
\<close>

definition init :: "string \<Rightarrow> string \<Rightarrow> exn + gemini" where
  "init api_keys_str single_key =
     (let keys = filter (\<lambda>k. strip k \<noteq> []) (split_on CHR '','' api_keys_str);
          keys1 = map strip keys;
          keys2 = (if keys1 = [] then (if single_key \<noteq> [] then [single_key] else keys1) else keys1)
      in if keys2 = []
         then Inl (Exn ValueError
            (''No Gemini API keys found. Set GEMINI_API_KEYS (comma-separated) or GEMINI_API_KEY in .env''
              @ newline @ ''Get free key from: https://makersuite.google.com/app/apikey''))
         else
           (case configure_current_key
                   \<lparr>api_keys = keys2, current_key_index = 0, key_cooldowns = Map.empty,
                    cooldown_duration = 60, model_name = ''gemini-2.0-flash'',
                    genai_api_key = [], model = [], enabled = False\<rparr> of
              (Inl e, s) \<Rightarrow> Inl e
            | (Inr _, s) \<Rightarrow> Inr (s\<lparr>enabled := True\<rparr>)))"

subsection \<open>Requests, results and provider responses\<close>

text \<open>The arguments of \<open>generate\<close>; \<open>**kwargs\<close> is ignored by the source.\<close>

record request =
  prompt :: string
  temperature :: real
  max_tokens :: int
  stop :: "string list option"

text \<open>The dictionary \<open>generate\<close> returns, keys \<open>'text'\<close>, \<open>'success'\<close>, \<open>'tokens_used'\<close>, \<open>'error'\<close>.\<close>

record result =
  rtext :: string
  success :: bool
  tokens_used :: nat
  error :: "string option"

text \<open>\<open>genai.types.GenerationConfig(temperature, max_output_tokens, stop_sequences)\<close>.\<close>

datatype generation_config = GenerationConfig real int "string list option"

text \<open>
  What reading an attribute of a response object does: the attribute is missing, its
  accessor raises, or it holds a value. Reading the same attribute twice gives the same
  outcome.
\<close>

datatype 'a attr = Missing | Raising exn | Holding 'a

text \<open>The response shape the source probes: \<open>response.text\<close> and \<open>response.candidates[0].content.parts[0].text\<close>.\<close>

datatype part = Part (part_text: "string attr")

datatype content = Content (content_parts: "part list attr")

datatype candidate = Candidate (candidate_content: "content attr")

datatype response = Response (response_text: "string attr") (response_candidates: "candidate list attr")

text \<open>
  \<open>hasattr(o, name)\<close> is false when the attribute is missing or its accessor raises
  \<open>AttributeError\<close>; any other exception of the accessor leaves \<open>hasattr\<close>.
\<close>

definition hasattr :: "'a attr \<Rightarrow> exn + bool" where
  "hasattr a = (case a of
       Missing \<Rightarrow> Inr False
     | Raising e \<Rightarrow> (if exn_class e = AttributeError then Inr False else Inl e)
     | Holding v \<Rightarrow> Inr True)"

definition getattr :: "'a attr \<Rightarrow> exn + 'a" where
  "getattr a = (case a of
       Missing \<Rightarrow> Inl (Exn AttributeError ''object has no attribute'')
     | Raising e \<Rightarrow> Inl e
     | Holding v \<Rightarrow> Inr v)"

text \<open>\<open>except (IndexError, AttributeError, ValueError)\<close>.\<close>

definition tolerated :: "exn \<Rightarrow> bool" where
  "tolerated e = (exn_class e = IndexError \<or> exn_class e = AttributeError \<or> exn_class e = ValueError)"

text \<open>
  The first probe: \<open>text\<close> starts as \<open>""\<close>; \<open>if hasattr(response, 'text'): text =
  response.text\<close> inside a handler for the three tolerated classes. The value is the
  \<open>text\<close> after the block, or the exception that leaves it.
\<close>

definition text_direct :: "response \<Rightarrow> exn + string" where
  "text_direct r =
     (case and_then (hasattr (response_text r))
             (\<lambda>h. if h then getattr (response_text r) else Inr []) of
        Inl e \<Rightarrow> (if tolerated e then Inr [] else Inl e)
      | Inr t \<Rightarrow> Inr t)"

text \<open>The second probe, through \<open>candidates[0].content.parts[0].text\<close>; it runs when \<open>text\<close> is still empty.\<close>

definition text_of_part :: "part \<Rightarrow> exn + string" where
  "text_of_part p =
     and_then (hasattr (part_text p)) (\<lambda>h. if h then getattr (part_text p) else Inr [])"

definition text_of_content :: "content \<Rightarrow> exn + string" where
  "text_of_content c =
     and_then (hasattr (content_parts c)) (\<lambda>h.
       if h then and_then (getattr (content_parts c)) (\<lambda>ps.
         case ps of [] \<Rightarrow> Inr [] | p # _ \<Rightarrow> text_of_part p)
       else Inr [])"

definition text_of_candidate :: "candidate \<Rightarrow> exn + string" where
  "text_of_candidate c =
     and_then (hasattr (candidate_content c)) (\<lambda>h.
       if h then and_then (getattr (candidate_content c)) text_of_content else Inr [])"

definition text_candidates :: "response \<Rightarrow> exn + string" where
  "text_candidates r =
     (case and_then (hasattr (response_candidates r)) (\<lambda>h.
             if h then and_then (getattr (response_candidates r)) (\<lambda>cs.
               case cs of [] \<Rightarrow> Inr [] | c # _ \<Rightarrow> text_of_candidate c)
             else Inr []) of
        Inl e \<Rightarrow> (if tolerated e then Inr [] else Inl e)
      | Inr t \<Rightarrow> Inr t)"

definition extract_text :: "response \<Rightarrow> exn + string" where
  "extract_text r =
     and_then (text_direct r) (\<lambda>t. if t \<noteq> [] then Inr t else text_candidates r)"

subsection \<open>The world a call of \<open>generate\<close> runs in\<close>

text \<open>
  \<open>generate_content k key m p cfg\<close> is what the \<open>k\<close>-th call (from 0) of
  \<open>self.model.generate_content\<close> in this invocation does, with the configured key, the
  model of the handle, the prompt and the generation configuration: it raises (an
  exception of building the configuration counts as one of the call) or returns a
  response. \<open>time k\<close> is the reading of \<open>time.time()\<close> made by the rotation that follows
  the \<open>k\<close>-th call. The last four fields are the module \<open>services.cloudflare_ai\<close>, which
  is not part of the sources: its import, \<open>is_cloudflare_ai_enabled()\<close>,
  \<open>get_cloudflare_ai()\<close> and the \<open>generate\<close> of the client it returns.
\<close>

record env =
  generate_content :: "nat \<Rightarrow> string \<Rightarrow> string \<Rightarrow> string \<Rightarrow> generation_config \<Rightarrow> exn + response"
  time :: "nat \<Rightarrow> real"
  cloudflare_import :: "exn option"
  is_cloudflare_ai_enabled :: "exn + bool"
  get_cloudflare_ai :: "exn option"
  cloudflare_generate :: "string \<Rightarrow> real \<Rightarrow> int \<Rightarrow> string list option \<Rightarrow> exn + result"

text \<open>The calls a run of \<open>generate\<close> makes, in order (a log kept beside the state).\<close>

datatype event =
    EGenerateContent nat string string string generation_config
  | ERotateKey real
  | EFallbackAttempt
  | ECloudflareGenerate string real int "string list option"

definition is_rotate :: "event \<Rightarrow> bool" where
  "is_rotate ev = (case ev of ERotateKey _ \<Rightarrow> True | _ \<Rightarrow> False)"

definition is_provider_call :: "event \<Rightarrow> bool" where
  "is_provider_call ev = (case ev of EGenerateContent _ _ _ _ _ \<Rightarrow> True | _ \<Rightarrow> False)"

definition is_fallback_attempt :: "event \<Rightarrow> bool" where
  "is_fallback_attempt ev = (case ev of EFallbackAttempt \<Rightarrow> True | _ \<Rightarrow> False)"

definition is_cloudflare_call :: "event \<Rightarrow> bool" where
  "is_cloudflare_call ev = (case ev of ECloudflareGenerate _ _ _ _ \<Rightarrow> True | _ \<Rightarrow> False)"

subsection \<open>\<open>generate\<close>\<close>

text \<open>The two failure dictionaries and the success dictionary the source builds.\<close>

definition empty_response_result :: result where
  "empty_response_result =
     \<lparr>rtext = [], success = False, tokens_used = 0, error = Some ''Empty response from API''\<rparr>"

text \<open>\<open>str(last_error)\<close>; \<open>last_error\<close> is \<open>None\<close> until an attempt has raised.\<close>

definition str_last_error :: "exn option \<Rightarrow> string" where
  "str_last_error le = (case le of None \<Rightarrow> ''None'' | Some e \<Rightarrow> exn_str e)"

definition failure_result :: "exn option \<Rightarrow> result" where
  "failure_result le =
     \<lparr>rtext = [], success = False, tokens_used = 0, error = Some (str_last_error le)\<rparr>"

definition success_result :: "string \<Rightarrow> string \<Rightarrow> result" where
  "success_result txt p =
     \<lparr>rtext = txt, success = True,
      tokens_used = length (split_ws txt) + length (split_ws p), error = None\<rparr>"

text \<open>\<open>stop_sequences=stop if stop else None\<close>: an empty list is falsy.\<close>

definition make_config :: "request \<Rightarrow> generation_config" where
  "make_config rq =
     GenerationConfig (temperature rq) (max_tokens rq)
       (case stop rq of None \<Rightarrow> None | Some l \<Rightarrow> (if l = [] then None else Some l))"

text \<open>
  The body of the \<open>try\<close> of one attempt: the provider call, the two probes, the final
  check. \<open>Inr\<close> is the dictionary the body returns, \<open>Inl\<close> the exception that reaches
  \<open>except Exception\<close>.
\<close>

definition attempt :: "env \<Rightarrow> request \<Rightarrow> nat \<Rightarrow> gemini \<Rightarrow> exn + result" where
  "attempt w rq k s =
     and_then (generate_content w k (genai_api_key s) (model s) (prompt rq) (make_config rq))
       (\<lambda>response. and_then (extract_text response)
          (\<lambda>txt. if txt = [] then Inr empty_response_result
                 else Inr (success_result txt (prompt rq))))"

definition provider_event :: "request \<Rightarrow> nat \<Rightarrow> gemini \<Rightarrow> event" where
  "provider_event rq k s =
     EGenerateContent k (genai_api_key s) (model s) (prompt rq) (make_config rq)"

definition rate_limit_terms :: "string list" where
  "rate_limit_terms =
     [''rate limit'', ''quota'', ''429'', ''resource exhausted'', ''too many requests'', ''rate_limit'']"

text \<open>\<open>is_rate_limit = any(term in error_str for term in [...])\<close> with \<open>error_str = str(e).lower()\<close>.\<close>

definition is_rate_limit :: "exn \<Rightarrow> bool" where
  "is_rate_limit e = list_ex (\<lambda>t. contains (lower (exn_str e)) t) rate_limit_terms"

text \<open>
  How the \<open>for attempt in range(max_retries)\<close> loop is left: by a \<open>return\<close> inside it,
  by \<open>break\<close> or the end of the range (with the value of \<open>last_error\<close>), or by an
  exception raised inside the handler, which nothing catches.
\<close>

datatype loop_exit = Return result | Break "exn option" | Raise exn

text \<open>
  The loop; the first argument is the number of iterations left, \<open>k\<close> is \<open>attempt\<close>.
  The result is the exit, the state of the instance and the calls made.
\<close>

fun retry_loop :: "nat \<Rightarrow> env \<Rightarrow> request \<Rightarrow> nat \<Rightarrow> exn option \<Rightarrow> gemini \<Rightarrow> loop_exit \<times> gemini \<times> event list" where
  "retry_loop 0 w rq k last_error s = (Break last_error, s, [])"
| "retry_loop (Suc n) w rq k last_error s =
     (case attempt w rq k s of
        Inr res \<Rightarrow> (Return res, s, [provider_event rq k s])
      | Inl e \<Rightarrow>
          if is_rate_limit e
          then (case rotate_key (time w k) s of
                  (Inl e1, s1) \<Rightarrow> (Raise e1, s1, [provider_event rq k s, ERotateKey (time w k)])
                | (Inr True, s1) \<Rightarrow>
                    (case retry_loop n w rq (Suc k) (Some e) s1 of
                       (x, s2, tr) \<Rightarrow> (x, s2, provider_event rq k s # ERotateKey (time w k) # tr))
                | (Inr False, s1) \<Rightarrow>
                    (Break (Some e), s1, [provider_event rq k s, ERotateKey (time w k)]))
          else (Break (Some e), s, [provider_event rq k s]))"

text \<open>
  The fallback block: the value is the dictionary its \<open>return result\<close> returns, or
  \<open>None\<close> when the block is left without returning (the provider is not enabled, its
  result is not successful, or an exception was caught and logged).
\<close>

definition cloudflare_fallback :: "env \<Rightarrow> request \<Rightarrow> result option \<times> event list" where
  "cloudflare_fallback w rq =
     (case cloudflare_import w of
        Some e \<Rightarrow> (None, [EFallbackAttempt])
      | None \<Rightarrow>
         (case is_cloudflare_ai_enabled w of
            Inl e \<Rightarrow> (None, [EFallbackAttempt])
          | Inr False \<Rightarrow> (None, [EFallbackAttempt])
          | Inr True \<Rightarrow>
             (case get_cloudflare_ai w of
                Some e \<Rightarrow> (None, [EFallbackAttempt])
              | None \<Rightarrow>
                 (case cloudflare_generate w (prompt rq) (temperature rq) (max_tokens rq) (stop rq) of
                    Inl e \<Rightarrow>
                      (None, [EFallbackAttempt,
                              ECloudflareGenerate (prompt rq) (temperature rq) (max_tokens rq) (stop rq)])
                  | Inr res \<Rightarrow>
                      (if success res then Some res else None,
                       [EFallbackAttempt,
                        ECloudflareGenerate (prompt rq) (temperature rq) (max_tokens rq) (stop rq)])))))"

text \<open>\<open>generate\<close>: what the call returns or raises, the state it leaves, the calls it made.\<close>

definition generate :: "env \<Rightarrow> request \<Rightarrow> gemini \<Rightarrow> (exn + result) \<times> gemini \<times> event list" where
  "generate w rq s =
     (case retry_loop (length (api_keys s)) w rq 0 None s of
        (Return res, s1, tr) \<Rightarrow> (Inr res, s1, tr)
      | (Raise e, s1, tr) \<Rightarrow> (Inl e, s1, tr)
      | (Break last_error, s1, tr) \<Rightarrow>
          (case cloudflare_fallback w rq of
             (Some res, ftr) \<Rightarrow> (Inr res, s1, tr @ ftr)
           | (None, ftr) \<Rightarrow> (Inr (failure_result last_error), s1, tr @ ftr)))"

subsection \<open>\<open>chat\<close> and \<open>get_status\<close>\<close>

text \<open>A message is a dictionary; \<open>msg.get('role', 'user')\<close> and \<open>msg.get('content', '')\<close>.\<close>

definition message_part :: "(string \<rightharpoonup> string) \<Rightarrow> string list" where
  "message_part msg =
     (let role = (case msg ''role'' of None \<Rightarrow> ''user'' | Some r \<Rightarrow> r);
          content = (case msg ''content'' of None \<Rightarrow> [] | Some c \<Rightarrow> c)
      in if role = ''system'' then [''System Instructions: '' @ content @ newline]
         else if role = ''user'' then [''User: '' @ content @ newline]
         else if role = ''assistant'' then [''Assistant: '' @ content @ newline]
         else [])"

definition messages_to_prompt :: "(string \<rightharpoonup> string) list \<Rightarrow> string" where
  "messages_to_prompt messages = join newline (concat (map message_part messages) @ [''Assistant: ''])"

text \<open>
  \<open>chat\<close>: the prompt is built, \<open>generate\<close> is called with \<open>stop\<close> left at its default
  \<open>None\<close>, and a failure dictionary becomes \<open>Exception(result['error'])\<close>, which the
  handler logs and raises again.
\<close>

definition chat :: "env \<Rightarrow> (string \<rightharpoonup> string) list \<Rightarrow> real \<Rightarrow> int \<Rightarrow> gemini \<Rightarrow> (exn + string) \<times> gemini \<times> event list" where
  "chat w messages temp maxtok s =
     (case generate w \<lparr>prompt = messages_to_prompt messages, temperature = temp,
                       max_tokens = maxtok, stop = None\<rparr> s of
        (Inl e, s1, tr) \<Rightarrow> (Inl e, s1, tr)
      | (Inr res, s1, tr) \<Rightarrow>
          (if success res then (Inr (rtext res), s1, tr)
           else (Inl (Exn OtherException (case error res of None \<Rightarrow> ''None'' | Some m \<Rightarrow> m)), s1, tr)))"

record status =
  status_enabled :: bool
  status_model :: string
  provider :: string
  tier :: string
  rate_limit :: string
  quality :: string
  api_keys_count :: nat
  status_current_key_index :: nat
  key_rotation :: string

text \<open>\<open>get_status\<close> reads the instance and assigns nothing; the state is returned as it came.\<close>

definition get_status :: "gemini \<Rightarrow> status \<times> gemini" where
  "get_status s =
     (\<lparr>status_enabled = enabled s, status_model = model_name s, provider = ''Google Gemini'',
       tier = ''Free'', rate_limit = ''15 requests/minute, 1500 requests/day'',
       quality = ''Excellent'', api_keys_count = length (api_keys s),
       status_current_key_index = current_key_index s + 1,
       key_rotation = (if length (api_keys s) > 1 then ''enabled'' else ''disabled'')\<rparr>, s)"

section \<open>The admin seeder: \<open>init_admin.py\<close>\<close>

datatype pref = PStr string | PBool bool

text \<open>
  Modelled from the spec: the user entity of \<open>models.user\<close>, which is not part of the
  sources; a record of the four values the seeder passes to \<open>User(...)\<close>.
\<close>

record user =
  username :: string
  password :: string
  email :: string
  preferences :: "(string \<times> pref) list"

text \<open>The operations the seeder performs on the database layer, in the order of a run.\<close>

datatype db_op =
    OpSessionLocal
  | OpQueryEmail string
  | OpQueryUsername string
  | OpAdd user
  | OpCommit
  | OpRollback
  | OpClose

text \<open>
  Modelled from the spec: the session of \<open>models.database\<close>, which is not part of the
  sources; a user-record store supporting lookup by field and transactional insert with
  rollback. \<open>users\<close> is the persisted table, \<open>pending\<close> the records added and not yet
  committed.
\<close>

record db =
  users :: "user list"
  pending :: "user list"

definition query_first :: "(user \<Rightarrow> bool) \<Rightarrow> db \<Rightarrow> user option" where
  "query_first p d = find p (users d)"

definition db_add :: "user \<Rightarrow> db \<Rightarrow> db" where
  "db_add u d = d\<lparr>pending := pending d @ [u]\<rparr>"

definition db_commit :: "db \<Rightarrow> db" where
  "db_commit d = \<lparr>users = users d @ pending d, pending = []\<rparr>"

definition db_rollback :: "db \<Rightarrow> db" where
  "db_rollback d = d\<lparr>pending := []\<rparr>"

definition admin_user :: user where
  "admin_user =
     \<lparr>username = ''admin'', password = ''Admin@123'', email = ''admin@test.com'',
      preferences = [(''role'', PStr ''admin''), (''tier'', PStr ''premium''),
                     (''is_admin'', PBool True), (''unlimited_access'', PBool True),
                     (''all_features_enabled'', PBool True)]\<rparr>"

definition check_mark :: string where
  "check_mark = [CHR 0xE2, CHR 0x9C, CHR 0x85]"

definition cross_mark :: string where
  "cross_mark = [CHR 0xE2, CHR 0x9D, CHR 0x8C]"

text \<open>
  The body of the \<open>try\<close> of \<open>create_admin_user\<close>. \<open>faults op\<close> is the exception the
  database layer raises at \<open>op\<close>, if any. The value is whether the body raised, the
  session, the lines printed and the operations performed.
\<close>

definition seeder_body :: "(db_op \<Rightarrow> exn option) \<Rightarrow> db \<Rightarrow> (exn + unit) \<times> db \<times> string list \<times> db_op list" where
  "seeder_body faults d =
     (let q1 = OpQueryEmail ''admin@test.com''; q2 = OpQueryUsername ''admin'' in
      case faults q1 of
        Some e \<Rightarrow> (Inl e, d, [], [q1])
      | None \<Rightarrow>
         (case query_first (\<lambda>u. email u = ''admin@test.com'') d of
            Some admin \<Rightarrow> (Inr (), d, [''Admin user already exists!''], [q1])
          | None \<Rightarrow>
             (case faults q2 of
                Some e \<Rightarrow> (Inl e, d, [], [q1, q2])
              | None \<Rightarrow>
                 (case query_first (\<lambda>u. username u = ''admin'') d of
                    Some admin \<Rightarrow>
                      (Inr (), d, [''Admin user (by username) already exists!''], [q1, q2])
                  | None \<Rightarrow>
                     (case faults (OpAdd admin_user) of
                        Some e \<Rightarrow> (Inl e, d, [], [q1, q2, OpAdd admin_user])
                      | None \<Rightarrow>
                         (case faults OpCommit of
                            Some e \<Rightarrow>
                              (Inl e, db_add admin_user d, [], [q1, q2, OpAdd admin_user, OpCommit])
                          | None \<Rightarrow>
                              (Inr (), db_commit (db_add admin_user d),
                               [check_mark @ '' Admin user created successfully!'',
                                ''   Email: admin@test.com'',
                                ''   Password: Admin@123''],
                               [q1, q2, OpAdd admin_user, OpCommit])))))))"

text \<open>
  \<open>create_admin_user\<close> on a store: \<open>SessionLocal()\<close> before the \<open>try\<close>, the handler
  (\<open>db.rollback()\<close> and the error line), and \<open>db.close()\<close> in \<open>finally\<close>. The value is
  whether the call raised, the persisted table afterwards, the lines printed and the
  operations performed.
\<close>

definition create_admin_user :: "(db_op \<Rightarrow> exn option) \<Rightarrow> user list \<Rightarrow> (exn + unit) \<times> user list \<times> string list \<times> db_op list" where
  "create_admin_user faults store =
     (case faults OpSessionLocal of
        Some e \<Rightarrow> (Inl e, store, [], [OpSessionLocal])
      | None \<Rightarrow>
         (case seeder_body faults \<lparr>users = store, pending = []\<rparr> of
            (r, d, out, ops) \<Rightarrow>
              (case (case r of
                       Inr u \<Rightarrow> (Inr (), d, out, ops)
                     | Inl e \<Rightarrow>
                        (case faults OpRollback of
                           Some e1 \<Rightarrow> (Inl e1, d, out, ops @ [OpRollback])
                         | None \<Rightarrow>
                            (Inr (), db_rollback d,
                             out @ [cross_mark @ '' Error creating admin: '' @ exn_str e],
                             ops @ [OpRollback]))) of
                 (r1, d1, out1, ops1) \<Rightarrow>
                   (case faults OpClose of
                      Some e2 \<Rightarrow> (Inl e2, users d1, out1, OpSessionLocal # ops1 @ [OpClose])
                    | None \<Rightarrow> (r1, users d1, out1, OpSessionLocal # ops1 @ [OpClose])))))"

definition no_faults :: "db_op \<Rightarrow> exn option" where
  "no_faults op = None"

definition is_add :: "db_op \<Rightarrow> bool" where
  "is_add op = (case op of OpAdd _ \<Rightarrow> True | _ \<Rightarrow> False)"

text \<open>A record with the fixed email or the fixed username is in the store.\<close>

definition admin_exists :: "user list \<Rightarrow> bool" where
  "admin_exists store =
     (list_ex (\<lambda>u. email u = ''admin@test.com'') store \<or> list_ex (\<lambda>u. username u = ''admin'') store)"

section \<open>Notions of the specification\<close>

text \<open>The test of the scan for index \<open>i\<close>: the time since its mark is at least the cooldown duration; an index never marked counts from timestamp 0.\<close>

definition eligible :: "real \<Rightarrow> gemini \<Rightarrow> nat \<Rightarrow> bool" where
  "eligible now s i = (now - cooldown_get (key_cooldowns s) i \<ge> cooldown_duration s)"

text \<open>The \<open>j\<close>-th index after the active one, wrapping around the pool.\<close>

definition candidate_index :: "gemini \<Rightarrow> nat \<Rightarrow> nat" where
  "candidate_index s j = (current_key_index s + j) mod length (api_keys s)"

definition mark_current :: "real \<Rightarrow> gemini \<Rightarrow> gemini" where
  "mark_current now s = s\<lparr>key_cooldowns := (key_cooldowns s)(current_key_index s \<mapsto> now)\<rparr>"

definition select_key :: "nat \<Rightarrow> gemini \<Rightarrow> gemini" where
  "select_key i s = s\<lparr>current_key_index := i, genai_api_key := api_keys s ! i, model := model_name s\<rparr>"

text \<open>
  \<open>rotate()\<close> of the specification for a pool of more than one key: mark the active
  index, take the first eligible index among the candidates of one full cycle and
  configure the client for it; with none eligible, keep the active index and fail.
\<close>

definition spec_rotate :: "real \<Rightarrow> gemini \<Rightarrow> (exn + bool) \<times> gemini" where
  "spec_rotate now s =
     (let s1 = mark_current now s in
      case find (eligible now s1) (map (\<lambda>j. candidate_index s (Suc j)) [0..<length (api_keys s)]) of
        Some i \<Rightarrow> (Inr True, select_key i s1)
      | None \<Rightarrow> (Inr False, s1))"

text \<open>
  Reading an attribute is benign when the attribute is missing, holds a value, or its
  accessor raises \<open>IndexError\<close>, \<open>AttributeError\<close> or \<open>ValueError\<close>.
\<close>

definition benign :: "'a attr \<Rightarrow> bool" where
  "benign a =
     (case a of
        Missing \<Rightarrow> True
      | Holding v \<Rightarrow> True
      | Raising e \<Rightarrow> exn_class e = IndexError \<or> exn_class e = AttributeError \<or> exn_class e = ValueError)"

text \<open>
  The text each path of a response holds: the direct field, and the field at
  \<open>candidates[0].content.parts[0].text\<close>; a path with a missing link, an empty list or
  a raising accessor holds none.
\<close>

definition spec_direct_text :: "response \<Rightarrow> string" where
  "spec_direct_text r = (case response_text r of Holding t \<Rightarrow> t | _ \<Rightarrow> [])"

definition spec_part_text :: "part \<Rightarrow> string" where
  "spec_part_text p = (case part_text p of Holding t \<Rightarrow> t | _ \<Rightarrow> [])"

definition spec_content_text :: "content \<Rightarrow> string" where
  "spec_content_text c = (case content_parts c of Holding (p # ps) \<Rightarrow> spec_part_text p | _ \<Rightarrow> [])"

definition spec_candidate_text :: "candidate \<Rightarrow> string" where
  "spec_candidate_text c = (case candidate_content c of Holding ct \<Rightarrow> spec_content_text ct | _ \<Rightarrow> [])"

definition spec_nested_text :: "response \<Rightarrow> string" where
  "spec_nested_text r =
     (case response_candidates r of Holding (c # cs) \<Rightarrow> spec_candidate_text c | _ \<Rightarrow> [])"

text \<open>The text of a response as the specification orders the two paths: the direct field first.\<close>

definition spec_text :: "response \<Rightarrow> string" where
  "spec_text r = (if spec_direct_text r \<noteq> [] then spec_direct_text r else spec_nested_text r)"

text \<open>Every attribute read on the way along the nested path is benign.\<close>

definition part_benign :: "part \<Rightarrow> bool" where
  "part_benign p = benign (part_text p)"

definition content_benign :: "content \<Rightarrow> bool" where
  "content_benign c =
     (benign (content_parts c)
      \<and> (case content_parts c of Holding (p # ps) \<Rightarrow> part_benign p | _ \<Rightarrow> True))"

definition candidate_benign :: "candidate \<Rightarrow> bool" where
  "candidate_benign c =
     (benign (candidate_content c)
      \<and> (case candidate_content c of Holding ct \<Rightarrow> content_benign ct | _ \<Rightarrow> True))"

definition nested_benign :: "response \<Rightarrow> bool" where
  "nested_benign r =
     (benign (response_candidates r)
      \<and> (case response_candidates r of Holding (c # cs) \<Rightarrow> candidate_benign c | _ \<Rightarrow> True))"

text \<open>
  Every attribute the extraction reads is benign: the direct field, and the nested path
  when the direct field holds no text.
\<close>

definition probes_benign :: "response \<Rightarrow> bool" where
  "probes_benign r = (benign (response_text r) \<and> (spec_direct_text r \<noteq> [] \<or> nested_benign r))"

text \<open>
  How a probe \<open>x\<close> of the source relates to the text \<open>v\<close> its path holds: with benign
  reads it gives \<open>v\<close> or raises a tolerated exception where the path holds nothing;
  otherwise it raises an exception that is not tolerated.
\<close>

definition probed :: "bool \<Rightarrow> string \<Rightarrow> exn + string \<Rightarrow> bool" where
  "probed ok v x =
     (if ok then x = Inr v \<or> (\<exists>e. x = Inl e \<and> tolerated e \<and> v = [])
      else (\<exists>e. x = Inl e \<and> \<not> tolerated e))"

text \<open>A response that exposes the text through the nested path only.\<close>

definition nested_only :: "string \<Rightarrow> response" where
  "nested_only t = Response Missing (Holding [Candidate (Holding (Content (Holding [Part (Holding t)])))])"

section \<open>Reading the log of a run\<close>

text \<open>The clock readings of the rotations in a log, in order, and the state after rotating at each of them.\<close>

fun rotation_times :: "event list \<Rightarrow> real list" where
  "rotation_times [] = []"
| "rotation_times (ERotateKey t # tr) = t # rotation_times tr"
| "rotation_times (EGenerateContent k key m p cfg # tr) = rotation_times tr"
| "rotation_times (EFallbackAttempt # tr) = rotation_times tr"
| "rotation_times (ECloudflareGenerate p t m st # tr) = rotation_times tr"

definition apply_rotations :: "gemini \<Rightarrow> real list \<Rightarrow> gemini" where
  "apply_rotations s ts = foldl (\<lambda>s1 t. snd (rotate_key t s1)) s ts"

text \<open>The states of an instance: the one \<open>__init__\<close> builds, and those its operations lead to.\<close>

inductive reachable :: "gemini \<Rightarrow> bool" where
  constructed: "init api_keys_str single_key = Inr s \<Longrightarrow> reachable s"
| rotated: "reachable s \<Longrightarrow> reachable (snd (rotate_key now s))"
| generated: "reachable s \<Longrightarrow> reachable (fst (snd (generate w rq s)))"
| chatted: "reachable s \<Longrightarrow> reachable (fst (snd (chat w messages temp maxtok s)))"
| inspected: "reachable s \<Longrightarrow> reachable (snd (get_status s))"

definition valid_index :: "gemini \<Rightarrow> bool" where
  "valid_index s = (current_key_index s < length (api_keys s))"

section \<open>Concrete instances and worlds\<close>

definition pool3 :: gemini where
  "pool3 = \<lparr>api_keys = [''key-a'', ''key-b'', ''key-c''], current_key_index = 0,
            key_cooldowns = [1 \<mapsto> 1700000090], cooldown_duration = 60,
            model_name = ''gemini-2.0-flash'', genai_api_key = ''key-a'',
            model = ''gemini-2.0-flash'', enabled = True\<rparr>"

definition pool1 :: gemini where
  "pool1 = \<lparr>api_keys = [''key-a''], current_key_index = 0,
            key_cooldowns = Map.empty, cooldown_duration = 60,
            model_name = ''gemini-2.0-flash'', genai_api_key = ''key-a'',
            model = ''gemini-2.0-flash'', enabled = True\<rparr>"

definition empty_world :: env where
  "empty_world =
     \<lparr>generate_content = (\<lambda>k key m p cfg. Inr (Response (Holding []) (Holding []))),
      time = (\<lambda>k. 1700000000 + real k),
      cloudflare_import = None,
      is_cloudflare_ai_enabled = Inr True,
      get_cloudflare_ai = None,
      cloudflare_generate = (\<lambda>p t m st.
         Inr \<lparr>rtext = ''from cloudflare'', success = True, tokens_used = 2, error = None\<rparr>)\<rparr>"

definition hello :: request where
  "hello = \<lparr>prompt = ''a b c'', temperature = 0.7, max_tokens = 2000, stop = None\<rparr>"

definition quota_error :: exn where
  "quota_error = Exn OtherException ''429 Resource Exhausted: Quota exceeded''"

definition server_error :: exn where
  "server_error = Exn OtherException ''500 Internal Server Error''"

definition failing_world :: "exn \<Rightarrow> env" where
  "failing_world e =
     \<lparr>generate_content = (\<lambda>k key m p cfg. Inl e),
      time = (\<lambda>k. 1700000000 + real k),
      cloudflare_import = None,
      is_cloudflare_ai_enabled = Inr False,
      get_cloudflare_ai = None,
      cloudflare_generate = (\<lambda>p t m st. Inl (Exn OtherException ''unused''))\<rparr>"

definition slow_world :: env where
  "slow_world =
     \<lparr>generate_content = (\<lambda>k key m p cfg. Inl quota_error),
      time = (\<lambda>k. 1700000000 + 61 * real k),
      cloudflare_import = None,
      is_cloudflare_ai_enabled = Inr False,
      get_cloudflare_ai = None,
      cloudflare_generate = (\<lambda>p t m st. Inl (Exn OtherException ''unused''))\<rparr>"

definition pool2 :: gemini where
  "pool2 = \<lparr>api_keys = [''key-a'', ''key-b''], current_key_index = 0,
            key_cooldowns = Map.empty, cooldown_duration = 60,
            model_name = ''gemini-2.0-flash'', genai_api_key = ''key-a'',
            model = ''gemini-2.0-flash'', enabled = True\<rparr>"

definition cloudflare_answer :: result where
  "cloudflare_answer = \<lparr>rtext = ''from cloudflare'', success = True, tokens_used = 2, error = None\<rparr>"

definition fallback_world :: env where
  "fallback_world =
     \<lparr>generate_content = (\<lambda>k key m p cfg. Inl server_error),
      time = (\<lambda>k. 1700000000 + real k),
      cloudflare_import = None,
      is_cloudflare_ai_enabled = Inr True,
      get_cloudflare_ai = None,
      cloudflare_generate = (\<lambda>p t m st. Inr cloudflare_answer)\<rparr>"

definition greeting :: "(string \<rightharpoonup> string) list" where
  "greeting = [[''role'' \<mapsto> ''user'', ''content'' \<mapsto> ''hi'']]"

definition nested_de :: "candidate list" where
  "nested_de = [Candidate (Holding (Content (Holding [Part (Holding ''d e'')])))]"

definition guarded_response :: response where
  "guarded_response = Response (Raising (Exn ValueError ''no valid part'')) (Holding nested_de)"

definition boom_response :: response where
  "boom_response = Response (Raising (Exn OtherException ''boom'')) (Holding nested_de)"

definition unreadable_response :: response where
  "unreadable_response = Response (Raising (Exn OtherException ''quota exceeded'')) Missing"

definition answering_world :: "response \<Rightarrow> env" where
  "answering_world r =
     \<lparr>generate_content = (\<lambda>k key m p cfg. Inr r),
      time = (\<lambda>k. 1700000000 + real k),
      cloudflare_import = None,
      is_cloudflare_ai_enabled = Inr False,
      get_cloudflare_ai = None,
      cloudflare_generate = (\<lambda>p t m st. Inl (Exn OtherException ''unused''))\<rparr>"

definition unreadable_world :: env where
  "unreadable_world =
     \<lparr>generate_content = (\<lambda>k key m p cfg. Inr unreadable_response),
      time = (\<lambda>k. 1700000000 + real k),
      cloudflare_import = None,
      is_cloudflare_ai_enabled = Inr True,
      get_cloudflare_ai = None,
      cloudflare_generate = (\<lambda>p t m st. Inr cloudflare_answer)\<rparr>"

section \<open>Properties\<close>

lemma upt_0_Suc: "[0..<Suc n] = 0 # map Suc [0..<n]"
  unfolding map_Suc_upt by (rule upt_conv_Cons) simp

lemma rotate_scan_find:
  assumes "0 < length (api_keys s)"
  shows "rotate_scan n now s =
     (case find (eligible now s) (map (\<lambda>j. candidate_index s (Suc j)) [0..<n]) of
        Some i \<Rightarrow> (Inr True, select_key i s)
      | None \<Rightarrow> (Inr False, if n = 0 then s else s\<lparr>current_key_index := candidate_index s n\<rparr>))"
  using assms
proof (induction n arbitrary: s)
  case 0
  then show ?case by simp
next
  case (Suc n)
  let ?N = "length (api_keys s)"
  let ?s1 = "s\<lparr>current_key_index := Suc (current_key_index s) mod ?N\<rparr>"
  have el: "eligible now ?s1 = eligible now s"
    by (simp add: eligible_def fun_eq_iff)
  have cand: "candidate_index ?s1 j = candidate_index s (Suc j)" for j
    by (simp add: candidate_index_def mod_add_left_eq)
  have c1: "candidate_index s (Suc 0) = Suc (current_key_index s) mod ?N"
    by (simp add: candidate_index_def)
  have lt: "Suc (current_key_index s) mod ?N < ?N"
    using Suc.prems by simp
  have lst: "map (\<lambda>j. candidate_index s (Suc j)) [0..<Suc n] =
      candidate_index s (Suc 0) # map (\<lambda>j. candidate_index ?s1 (Suc j)) [0..<n]"
    unfolding upt_0_Suc by (simp add: cand)
  show ?case
  proof (cases "eligible now s (candidate_index s (Suc 0))")
    case True
    then have "cooldown_duration s \<le> now - cooldown_get (key_cooldowns s) (Suc (current_key_index s) mod ?N)"
      by (simp add: eligible_def c1)
    then show ?thesis unfolding lst using True Suc.prems lt
      by (simp add: configure_current_key_def select_key_def c1 Let_def)
  next
    case False
    then have ne: "\<not> cooldown_duration s \<le> now - cooldown_get (key_cooldowns s) (Suc (current_key_index s) mod ?N)"
      by (simp add: eligible_def c1)
    have ih: "rotate_scan n now ?s1 =
      (case find (eligible now ?s1) (map (\<lambda>j. candidate_index ?s1 (Suc j)) [0..<n]) of
        Some i \<Rightarrow> (Inr True, select_key i ?s1)
      | None \<Rightarrow> (Inr False, if n = 0 then ?s1 else ?s1\<lparr>current_key_index := candidate_index ?s1 n\<rparr>))"
      using Suc.IH[of ?s1] Suc.prems by simp
    have sel: "select_key i ?s1 = select_key i s" for i
      by (simp add: select_key_def)
    have "rotate_scan (Suc n) now s = rotate_scan n now ?s1"
      using Suc.prems ne by (simp add: Let_def)
    also have "\<dots> = (case find (eligible now s) (map (\<lambda>j. candidate_index ?s1 (Suc j)) [0..<n]) of
        Some i \<Rightarrow> (Inr True, select_key i s)
      | None \<Rightarrow> (Inr False, s\<lparr>current_key_index := candidate_index s (Suc n)\<rparr>))"
      unfolding ih el sel
      by (cases n) (simp_all add: cand c1 split: option.splits del: upt_Suc)
    finally show ?thesis unfolding lst using False
      by simp
  qed
qed

lemma rotate_key_refines:
  assumes "1 < length (api_keys s)"
  shows "rotate_key now s = spec_rotate now s"
proof -
  let ?s1 = "mark_current now s"
  have N: "0 < length (api_keys ?s1)" using assms by (auto simp: mark_current_def)
  have c: "candidate_index ?s1 = candidate_index s"
    by (simp add: candidate_index_def mark_current_def fun_eq_iff)
  have r: "?s1\<lparr>current_key_index := current_key_index s\<rparr> = ?s1"
    by (simp add: mark_current_def)
  have l: "length (api_keys ?s1) = length (api_keys s)" by (simp add: mark_current_def)
  have "rotate_key now s = (case rotate_scan (length (api_keys s)) now ?s1 of
              (Inl e, s2) \<Rightarrow> (Inl e, s2)
            | (Inr True, s2) \<Rightarrow> (Inr True, s2)
            | (Inr False, s2) \<Rightarrow> (Inr False, s2\<lparr>current_key_index := current_key_index s\<rparr>))"
    using assms by (simp add: rotate_key_def mark_current_def Let_def)
  also have "\<dots> = spec_rotate now s"
    unfolding rotate_scan_find[OF N] c spec_rotate_def Let_def
    using assms by (simp add: r split: option.splits)
  finally show ?thesis .
qed


lemma candidate_cover:
  assumes "i < length (api_keys s)"
  shows "\<exists>j. 1 \<le> j \<and> j \<le> length (api_keys s) \<and> candidate_index s j = i"
proof -
  define N where "N = length (api_keys s)"
  define c where "c = current_key_index s mod N"
  have iN: "i < N" using assms by (simp add: N_def)
  have cN: "c < N" unfolding c_def using iN by (intro mod_less_divisor) auto
  have ci: "candidate_index s j = (c + j) mod N" for j
    by (simp add: candidate_index_def mod_add_left_eq c_def N_def)
  show ?thesis
  proof (cases "c < i")
    case True
    have "c + (i - c) = i" using True by arith
    then have "candidate_index s (i - c) = i" using iN by (simp add: ci)
    moreover have "1 \<le> i - c \<and> i - c \<le> N" using True iN by arith
    ultimately show ?thesis unfolding N_def by blast
  next
    case False
    have "c + (N - c + i) = i + N" using cN by arith
    then have "candidate_index s (N - c + i) = i" using iN by (simp add: ci)
    moreover have "1 \<le> N - c + i \<and> N - c + i \<le> N" using False cN by arith
    ultimately show ?thesis unfolding N_def by blast
  qed
qed

lemma spec_rotate_True:
  assumes "spec_rotate now s = (Inr True, s')"
  shows "\<exists>j. 1 \<le> j \<and> j \<le> length (api_keys s) \<and> s' = select_key (candidate_index s j) (mark_current now s)
           \<and> eligible now (mark_current now s) (candidate_index s j)
           \<and> (\<forall>i. 1 \<le> i \<and> i < j \<longrightarrow> \<not> eligible now (mark_current now s) (candidate_index s i))"
proof -
  let ?xs = "map (\<lambda>j. candidate_index s (Suc j)) [0..<length (api_keys s)]"
  let ?P = "eligible now (mark_current now s)"
  from assms obtain x where f: "find ?P ?xs = Some x" and s': "s' = select_key x (mark_current now s)"
    by (auto simp: spec_rotate_def Let_def split: option.splits)
  from f obtain m where m: "m < length ?xs" "?P (?xs ! m)" "x = ?xs ! m" "\<forall>l<m. \<not> ?P (?xs ! l)"
    unfolding find_Some_iff by blast
  have len: "length ?xs = length (api_keys s)" by (simp del: upt_Suc)
  have nth: "?xs ! l = candidate_index s (Suc l)" if "l < length (api_keys s)" for l
    using that by simp
  have "\<not> ?P (candidate_index s i)" if "1 \<le> i \<and> i < Suc m" for i
  proof -
    from that obtain l where l: "i = Suc l" "l < m" by (cases i) auto
    then show ?thesis using m(1,4) nth[of l] len by auto
  qed
  then show ?thesis
    using m nth[of m] len s' by (intro exI[of _ "Suc m"]) auto
qed

lemma spec_rotate_False:
  assumes "spec_rotate now s = (Inr False, s')"
  shows "s' = mark_current now s \<and> (\<forall>i<length (api_keys s). \<not> eligible now (mark_current now s) i)"
proof -
  let ?xs = "map (\<lambda>j. candidate_index s (Suc j)) [0..<length (api_keys s)]"
  let ?P = "eligible now (mark_current now s)"
  from assms have f: "find ?P ?xs = None" and s': "s' = mark_current now s"
    by (auto simp: spec_rotate_def Let_def split: option.splits)
  have "\<not> ?P i" if "i < length (api_keys s)" for i
  proof -
    from candidate_cover[OF that] obtain j where j: "1 \<le> j" "j \<le> length (api_keys s)" "candidate_index s j = i"
      by blast
    then have "i = candidate_index s (Suc (j - 1))" "j - 1 < length (api_keys s)" by auto
    then have "i \<in> set ?xs" by (auto simp: image_iff)
    then show ?thesis using f unfolding find_None_iff by blast
  qed
  then show ?thesis using s' by blast
qed

text \<open>
  C2. For a pool of more than one key, \<open>_rotate_key\<close> marks the active index with
  the current time, then takes the first index, in the order active + 1, active + 2, ...
  wrapping around for one full cycle, whose time since its mark is at least the cooldown
  duration (an index never marked counts from timestamp 0) and configures the client for
  it; the index selected is never in cooldown; with no eligible index in the whole pool
  the active index is the original one again and the call fails.
\<close>

theorem rotate_key_first_eligible:
  assumes "1 < length (api_keys s)"
  shows "rotate_key now s = spec_rotate now s
    \<and> key_cooldowns (snd (rotate_key now s)) = (key_cooldowns s)(current_key_index s \<mapsto> now)
    \<and> (\<forall>s'. rotate_key now s = (Inr True, s') \<longrightarrow>
          (\<exists>j. 1 \<le> j \<and> j \<le> length (api_keys s)
             \<and> current_key_index s' = candidate_index s j
             \<and> genai_api_key s' = api_keys s ! candidate_index s j
             \<and> eligible now (mark_current now s) (current_key_index s')
             \<and> (\<forall>i. 1 \<le> i \<and> i < j \<longrightarrow> \<not> eligible now (mark_current now s) (candidate_index s i))))
    \<and> (\<forall>s'. rotate_key now s = (Inr False, s') \<longrightarrow>
          current_key_index s' = current_key_index s
          \<and> (\<forall>i<length (api_keys s). \<not> eligible now (mark_current now s) i))
    \<and> (\<forall>i. key_cooldowns (mark_current now s) i = None \<longrightarrow>
          eligible now (mark_current now s) i = (cooldown_duration s \<le> now - 0))"
proof -
  have r: "rotate_key now s = spec_rotate now s" by (rule rotate_key_refines[OF assms])
  have a: "key_cooldowns (snd (spec_rotate now s)) = (key_cooldowns s)(current_key_index s \<mapsto> now)"
    by (simp add: spec_rotate_def Let_def select_key_def mark_current_def split: option.splits)
  have b: "\<forall>s'. spec_rotate now s = (Inr True, s') \<longrightarrow>
          (\<exists>j. 1 \<le> j \<and> j \<le> length (api_keys s)
             \<and> current_key_index s' = candidate_index s j
             \<and> genai_api_key s' = api_keys s ! candidate_index s j
             \<and> eligible now (mark_current now s) (current_key_index s')
             \<and> (\<forall>i. 1 \<le> i \<and> i < j \<longrightarrow> \<not> eligible now (mark_current now s) (candidate_index s i)))"
  proof (intro allI impI)
    fix s' assume "spec_rotate now s = (Inr True, s')"
    from spec_rotate_True[OF this] obtain j where j: "1 \<le> j" "j \<le> length (api_keys s)"
       "s' = select_key (candidate_index s j) (mark_current now s)"
       "eligible now (mark_current now s) (candidate_index s j)"
       "\<forall>i. 1 \<le> i \<and> i < j \<longrightarrow> \<not> eligible now (mark_current now s) (candidate_index s i)"
      by blast
    have "current_key_index s' = candidate_index s j" "genai_api_key s' = api_keys s ! candidate_index s j"
      using j(3) by (simp_all add: select_key_def mark_current_def)
    then show "\<exists>j. 1 \<le> j \<and> j \<le> length (api_keys s)
             \<and> current_key_index s' = candidate_index s j
             \<and> genai_api_key s' = api_keys s ! candidate_index s j
             \<and> eligible now (mark_current now s) (current_key_index s')
             \<and> (\<forall>i. 1 \<le> i \<and> i < j \<longrightarrow> \<not> eligible now (mark_current now s) (candidate_index s i))"
      using j by (intro exI[of _ j]) simp
  qed
  have c: "\<forall>s'. spec_rotate now s = (Inr False, s') \<longrightarrow>
          current_key_index s' = current_key_index s
          \<and> (\<forall>i<length (api_keys s). \<not> eligible now (mark_current now s) i)"
    using spec_rotate_False[of now s] by (auto simp: mark_current_def)
  have d: "\<forall>i. key_cooldowns (mark_current now s) i = None \<longrightarrow>
          eligible now (mark_current now s) i = (cooldown_duration s \<le> now - 0)"
    by (simp add: eligible_def cooldown_get_def mark_current_def)
  show ?thesis unfolding r using a b c d by blast
qed

theorem rotate_key_first_eligible_witness:
  "1 < length (api_keys pool3)
   \<and> rotate_key 1700000100 pool3 =
      (Inr True, pool3\<lparr>current_key_index := 2, key_cooldowns := [1 \<mapsto> 1700000090, 0 \<mapsto> 1700000100],
                       genai_api_key := ''key-c''\<rparr>)"
  using rotate_key_first_eligible[of pool3 1700000100]
  by (simp add: pool3_def spec_rotate_def mark_current_def select_key_def eligible_def
        cooldown_get_def candidate_index_def upt_0_Suc del: upt_Suc)

text \<open>
  C8. With a pool of one key (or none) \<open>_rotate_key\<close> fails at once and the instance
  is exactly as before: active index, cooldown table and configured client.
\<close>

theorem rotate_key_single_key:
  "length (api_keys s) \<le> 1 \<Longrightarrow> rotate_key now s = (Inr False, s)"
  by (simp add: rotate_key_def)

theorem rotate_key_single_key_witness:
  "length (api_keys pool1) \<le> 1 \<and> rotate_key 1700000100 pool1 = (Inr False, pool1)"
  using rotate_key_single_key[of pool1 1700000100] by (simp add: pool1_def)

subsection \<open>Facts about the rotation and the retry loop\<close>

lemma spec_rotate_cases:
  "spec_rotate now s = (Inr True, snd (spec_rotate now s)) \<or> spec_rotate now s = (Inr False, snd (spec_rotate now s))"
  by (simp add: spec_rotate_def Let_def split: option.splits)

lemma rotate_key_cases:
  "rotate_key now s = (Inr True, snd (rotate_key now s)) \<or> rotate_key now s = (Inr False, snd (rotate_key now s))"
proof (cases "1 < length (api_keys s)")
  case True
  then show ?thesis using spec_rotate_cases[of now s] by (simp add: rotate_key_refines)
next
  case False
  then show ?thesis by (simp add: rotate_key_def)
qed

lemma rotate_key_not_raise: "rotate_key now s \<noteq> (Inl e, s')"
  using rotate_key_cases[of now s] by auto

lemma spec_rotate_frame:
  "api_keys (snd (spec_rotate now s)) = api_keys s"
  by (simp add: spec_rotate_def Let_def select_key_def mark_current_def split: option.splits)

lemma rotate_key_api_keys: "api_keys (snd (rotate_key now s)) = api_keys s"
proof (cases "1 < length (api_keys s)")
  case True
  then show ?thesis by (simp add: rotate_key_refines spec_rotate_frame)
next
  case False
  then show ?thesis by (simp add: rotate_key_def)
qed

lemma rotate_key_valid:
  assumes "current_key_index s < length (api_keys s)"
  shows "current_key_index (snd (rotate_key now s)) < length (api_keys s)"
proof (cases "1 < length (api_keys s)")
  case True
  have r: "rotate_key now s = spec_rotate now s" by (rule rotate_key_refines[OF True])
  show ?thesis
  proof (cases "fst (spec_rotate now s) = Inr True")
    case t: True
    then have "spec_rotate now s = (Inr True, snd (spec_rotate now s))" by (simp add: prod_eq_iff)
    from spec_rotate_True[OF this] obtain j where
      "snd (spec_rotate now s) = select_key (candidate_index s j) (mark_current now s)" by blast
    then have "current_key_index (snd (spec_rotate now s)) = candidate_index s j"
      by (simp add: select_key_def)
    moreover have "candidate_index s j < length (api_keys s)"
      unfolding candidate_index_def using True by (intro mod_less_divisor) auto
    ultimately show ?thesis by (simp add: r)
  next
    case f: False
    then have "spec_rotate now s = (Inr False, snd (spec_rotate now s))"
      using spec_rotate_cases[of now s] by (metis fst_conv)
    from spec_rotate_False[OF this] show ?thesis using assms by (simp add: r mark_current_def)
  qed
next
  case False
  then show ?thesis using assms by (simp add: rotate_key_def)
qed

lemma retry_loop_step:
  "retry_loop (Suc n) w rq k le s =
     (case attempt w rq k s of
        Inr res \<Rightarrow> (Return res, s, [provider_event rq k s])
      | Inl e \<Rightarrow>
          if is_rate_limit e
          then (if fst (rotate_key (time w k) s) = Inr True
                then (case retry_loop n w rq (Suc k) (Some e) (snd (rotate_key (time w k) s)) of
                       (x, s2, tr) \<Rightarrow> (x, s2, provider_event rq k s # ERotateKey (time w k) # tr))
                else (Break (Some e), snd (rotate_key (time w k) s), [provider_event rq k s, ERotateKey (time w k)]))
          else (Break (Some e), s, [provider_event rq k s]))"
proof -
  obtain b s1 where rk: "rotate_key (time w k) s = (Inr b, s1)"
    using rotate_key_cases[of "time w k" s] by metis
  show ?thesis by (cases b) (simp_all add: rk split: sum.splits)
qed

lemma retry_loop_not_raise: "retry_loop n w rq k le s \<noteq> (Raise e, s', tr)"
proof (induction n arbitrary: k le s s' tr)
  case 0
  then show ?case by simp
next
  case (Suc n)
  show ?case unfolding retry_loop_step using Suc.IH
    by (auto split: sum.splits prod.splits)
qed

lemma retry_loop_state:
  "retry_loop n w rq k le s = (x, s', tr) \<Longrightarrow> s' = apply_rotations s (rotation_times tr)"
proof (induction n arbitrary: k le s x s' tr)
  case 0
  then show ?case by (simp add: apply_rotations_def)
next
  case (Suc n)
  from Suc.prems show ?case unfolding retry_loop_step using Suc.IH
    by (auto simp: apply_rotations_def provider_event_def split: sum.splits prod.splits if_splits)
qed

lemma event_kinds:
  "is_provider_call (provider_event rq k s)" "\<not> is_rotate (provider_event rq k s)"
  "\<not> is_fallback_attempt (provider_event rq k s)" "\<not> is_cloudflare_call (provider_event rq k s)"
  "is_rotate (ERotateKey t)" "\<not> is_provider_call (ERotateKey t)"
  "\<not> is_fallback_attempt (ERotateKey t)" "\<not> is_cloudflare_call (ERotateKey t)"
  by (simp_all add: provider_event_def is_provider_call_def is_rotate_def
        is_fallback_attempt_def is_cloudflare_call_def)

lemma retry_loop_counts:
  "retry_loop n w rq k le s = (x, s', tr) \<Longrightarrow>
   length (filter is_rotate tr) \<le> n
   \<and> length (filter is_provider_call tr) \<le> n
   \<and> filter is_fallback_attempt tr = []
   \<and> filter is_cloudflare_call tr = []"
proof (induction n arbitrary: k le s x s' tr)
  case 0
  then show ?case by auto
next
  case (Suc n)
  from Suc.prems show ?case unfolding retry_loop_step using Suc.IH
    by (fastforce simp: event_kinds split: sum.splits prod.splits if_splits)
qed

lemma contains_iff: "contains s t \<longleftrightarrow> (\<exists>pre post. s = pre @ t @ post)"
proof (induction s)
  case Nil
  then show ?case by auto
next
  case (Cons x xs)
  show ?case
  proof
    assume "contains (x # xs) t"
    then consider "prefix t (x # xs)" | "contains xs t" by auto
    then show "\<exists>pre post. x # xs = pre @ t @ post"
    proof cases
      case 1
      then obtain post where "x # xs = t @ post" by (auto simp: prefix_def)
      then have "x # xs = [] @ t @ post" by simp
      then show ?thesis by blast
    next
      case 2
      then obtain pre post where "xs = pre @ t @ post" using Cons.IH by blast
      then have "x # xs = (x # pre) @ t @ post" by simp
      then show ?thesis by blast
    qed
  next
    assume "\<exists>pre post. x # xs = pre @ t @ post"
    then obtain pre post where p: "x # xs = pre @ t @ post" by blast
    show "contains (x # xs) t"
    proof (cases pre)
      case Nil
      then have "prefix t (x # xs)" using p by (simp add: prefix_def)
      then show ?thesis by simp
    next
      case (Cons y ys)
      then have "xs = ys @ t @ post" using p by simp
      then have "contains xs t" using Cons.IH by blast
      then show ?thesis by simp
    qed
  qed
qed

subsection \<open>Text extraction\<close>

lemma text_direct_Holding: "response_text r = Holding t \<Longrightarrow> text_direct r = Inr t"
  by (simp add: text_direct_def hasattr_def getattr_def and_then_def)

lemma text_candidates_nested:
  "response_candidates r = Holding (Candidate (Holding (Content (Holding (Part (Holding t) # ps)))) # cs)
   \<Longrightarrow> text_candidates r = Inr t"
  by (simp add: text_candidates_def text_of_candidate_def text_of_content_def text_of_part_def
        hasattr_def getattr_def and_then_def)

lemma attempt_returned:
  assumes "generate_content w k (genai_api_key s) (model s) (prompt rq) (make_config rq) = Inr r"
      and "extract_text r = Inr txt"
  shows "attempt w rq k s = Inr (if txt = [] then empty_response_result else success_result txt (prompt rq))"
  using assms by (simp add: attempt_def and_then_def)

lemma generate_first_return:
  assumes "0 < length (api_keys s)" and "attempt w rq 0 s = Inr res"
  shows "generate w rq s = (Inr res, s, [provider_event rq 0 s])"
proof -
  obtain n where n: "length (api_keys s) = Suc n" using assms(1) by (cases "length (api_keys s)") auto
  show ?thesis unfolding generate_def n using assms(2) by simp
qed

lemma split_ws_abc: "split_ws ''a b c'' = [''a'', ''b'', ''c'']"
  by (simp add: split_ws_def isspace_def)

lemma split_ws_de: "split_ws ''d e'' = [''d'', ''e'']"
  by (simp add: split_ws_def isspace_def)

lemma attempt_return_everywhere:
  assumes "attempt w rq k s = Inr res"
  shows "retry_loop (Suc n) w rq k le s = (Return res, s, [provider_event rq k s])
     \<and> (k = 0 \<and> 0 < length (api_keys s) \<longrightarrow> generate w rq s = (Inr res, s, [provider_event rq 0 s]))"
  using assms generate_first_return[of s w rq res] by auto

lemma benign_Raising: "benign (Raising e) = tolerated e"
  by (simp add: benign_def tolerated_def)

lemma probe_attr:
  "and_then (hasattr a) (\<lambda>h. if h then and_then (getattr a) f else Inr []) =
     (case a of
        Missing \<Rightarrow> Inr []
      | Raising e \<Rightarrow> (if exn_class e = AttributeError then Inr [] else Inl e)
      | Holding v \<Rightarrow> f v)"
  by (simp add: hasattr_def getattr_def and_then_def split: attr.splits)

lemma probe_attr_plain:
  "and_then (hasattr a) (\<lambda>h. if h then getattr a else Inr []) =
     (case a of
        Missing \<Rightarrow> Inr []
      | Raising e \<Rightarrow> (if exn_class e = AttributeError then Inr [] else Inl e)
      | Holding v \<Rightarrow> Inr v)"
  by (simp add: hasattr_def getattr_def and_then_def split: attr.splits)

lemma probed_part: "probed (part_benign p) (spec_part_text p) (text_of_part p)"
  unfolding text_of_part_def probe_attr_plain
  by (cases "part_text p")
     (auto simp: probed_def part_benign_def spec_part_text_def benign_def tolerated_def)

lemma probed_content: "probed (content_benign c) (spec_content_text c) (text_of_content c)"
proof (cases "content_parts c")
  case Missing
  then show ?thesis
    unfolding text_of_content_def probe_attr
    by (simp add: probed_def content_benign_def spec_content_text_def benign_def)
next
  case (Raising e)
  then show ?thesis
    unfolding text_of_content_def probe_attr
    by (auto simp: probed_def content_benign_def spec_content_text_def benign_def tolerated_def)
next
  case (Holding ps)
  show ?thesis
  proof (cases ps)
    case Nil
    then show ?thesis using Holding
      unfolding text_of_content_def probe_attr
      by (simp add: probed_def content_benign_def spec_content_text_def benign_def)
  next
    case (Cons p ps')
    then show ?thesis using Holding probed_part[of p]
      unfolding text_of_content_def probe_attr
      by (simp add: content_benign_def spec_content_text_def benign_def)
  qed
qed

lemma probed_candidate: "probed (candidate_benign c) (spec_candidate_text c) (text_of_candidate c)"
proof (cases "candidate_content c")
  case Missing
  then show ?thesis
    unfolding text_of_candidate_def probe_attr
    by (simp add: probed_def candidate_benign_def spec_candidate_text_def benign_def)
next
  case (Raising e)
  then show ?thesis
    unfolding text_of_candidate_def probe_attr
    by (auto simp: probed_def candidate_benign_def spec_candidate_text_def benign_def tolerated_def)
next
  case (Holding ct)
  then show ?thesis using probed_content[of ct]
    unfolding text_of_candidate_def probe_attr
    by (simp add: candidate_benign_def spec_candidate_text_def benign_def)
qed

lemma probed_nested:
  "probed (nested_benign r) (spec_nested_text r)
     (and_then (hasattr (response_candidates r)) (\<lambda>h.
             if h then and_then (getattr (response_candidates r)) (\<lambda>cs.
               case cs of [] \<Rightarrow> Inr [] | c # _ \<Rightarrow> text_of_candidate c)
             else Inr []))"
proof (cases "response_candidates r")
  case Missing
  then show ?thesis
    unfolding probe_attr
    by (simp add: probed_def nested_benign_def spec_nested_text_def benign_def)
next
  case (Raising e)
  then show ?thesis
    unfolding probe_attr
    by (auto simp: probed_def nested_benign_def spec_nested_text_def benign_def tolerated_def)
next
  case (Holding cs)
  show ?thesis
  proof (cases cs)
    case Nil
    then show ?thesis using Holding
      unfolding probe_attr
      by (simp add: probed_def nested_benign_def spec_nested_text_def benign_def)
  next
    case (Cons c cs')
    then show ?thesis using Holding probed_candidate[of c]
      unfolding probe_attr
      by (simp add: nested_benign_def spec_nested_text_def benign_def)
  qed
qed

lemma text_candidates_benign:
  "nested_benign r \<Longrightarrow> text_candidates r = Inr (spec_nested_text r)"
  using probed_nested[of r] unfolding text_candidates_def
  by (auto simp: probed_def)

lemma text_candidates_not_benign:
  "\<not> nested_benign r \<Longrightarrow> \<exists>e. text_candidates r = Inl e \<and> \<not> tolerated e"
  using probed_nested[of r] unfolding text_candidates_def
  by (auto simp: probed_def)

lemma text_direct_benign:
  "benign (response_text r) \<Longrightarrow> text_direct r = Inr (spec_direct_text r)"
  unfolding text_direct_def probe_attr_plain
  by (cases "response_text r") (auto simp: spec_direct_text_def benign_def tolerated_def)

lemma text_direct_not_benign:
  "\<not> benign (response_text r) \<Longrightarrow>
     \<exists>e. response_text r = Raising e \<and> text_direct r = Inl e \<and> \<not> tolerated e"
  unfolding text_direct_def probe_attr_plain
  by (cases "response_text r") (auto simp: benign_def tolerated_def)

lemma extract_text_benign:
  assumes "probes_benign r"
  shows "extract_text r = Inr (spec_text r)"
proof -
  have b: "benign (response_text r)" using assms by (simp add: probes_benign_def)
  show ?thesis
  proof (cases "spec_direct_text r = []")
    case True
    then have "nested_benign r" using assms by (simp add: probes_benign_def)
    then show ?thesis using True text_direct_benign[OF b]
      by (simp add: extract_text_def and_then_def spec_text_def text_candidates_benign)
  next
    case False
    then show ?thesis using text_direct_benign[OF b]
      by (simp add: extract_text_def and_then_def spec_text_def)
  qed
qed

lemma extract_text_not_benign:
  assumes "\<not> probes_benign r"
  shows "\<exists>e. extract_text r = Inl e \<and> \<not> tolerated e"
proof (cases "benign (response_text r)")
  case True
  then have d: "spec_direct_text r = []" and n: "\<not> nested_benign r"
    using assms by (simp_all add: probes_benign_def)
  show ?thesis using text_direct_benign[OF True] d text_candidates_not_benign[OF n]
    by (simp add: extract_text_def and_then_def)
next
  case False
  from text_direct_not_benign[OF this] show ?thesis
    by (auto simp: extract_text_def and_then_def)
qed

lemma extract_text_iff:
  "extract_text r = Inr t \<longleftrightarrow> probes_benign r \<and> spec_text r = t"
  using extract_text_benign[of r] extract_text_not_benign[of r] by (cases "probes_benign r") auto

lemma lower_boom: "lower ''boom'' = ''boom''"
  by code_simp

lemma lower_quota_exceeded: "lower ''quota exceeded'' = ''quota exceeded''"
  by code_simp

text \<open>
  C3 (as amended). For a response of a provider call whose attributes, as far as the
  extraction reads them, are each missing, hold a value, or raise \<open>IndexError\<close>,
  \<open>AttributeError\<close> or \<open>ValueError\<close>, the extraction yields the text of the direct
  field when that holds text and otherwise the text at
  \<open>candidates[0].content.parts[0].text\<close>, so a response exposing only the nested path
  yields the nested text; with text, the call returns the success result for it; with no
  text on either path it returns, without raising, a result with \<open>success\<close> false, empty
  text, 0 tokens and an error description. The extraction yields a text in no other
  case: an accessor raising an exception of another class ends it with that exception,
  which reaches the handler of provider errors.
\<close>

theorem extraction_order:
  assumes "generate_content w k (genai_api_key s) (model s) (prompt rq) (make_config rq) = Inr r"
  shows "(\<forall>t. extract_text r = Inr t \<longleftrightarrow> probes_benign r \<and> spec_text r = t)
       \<and> (\<forall>t. response_text r = Holding t \<and> t \<noteq> [] \<longrightarrow> probes_benign r \<and> spec_text r = t)
       \<and> (spec_direct_text r = [] \<longrightarrow> spec_text r = spec_nested_text r)
       \<and> (\<forall>t ps cs. response_text r = Missing
            \<and> response_candidates r = Holding (Candidate (Holding (Content (Holding (Part (Holding t) # ps)))) # cs) \<longrightarrow>
            probes_benign r \<and> spec_text r = t)
       \<and> (probes_benign r \<and> spec_text r \<noteq> [] \<longrightarrow>
            retry_loop (Suc n) w rq k le s =
              (Return (success_result (spec_text r) (prompt rq)), s, [provider_event rq k s])
            \<and> (k = 0 \<and> 0 < length (api_keys s) \<longrightarrow>
                 generate w rq s = (Inr (success_result (spec_text r) (prompt rq)), s, [provider_event rq 0 s]))
            \<and> rtext (success_result (spec_text r) (prompt rq)) = spec_text r
            \<and> success (success_result (spec_text r) (prompt rq)))
       \<and> (probes_benign r \<and> spec_text r = [] \<longrightarrow>
            (\<exists>res. retry_loop (Suc n) w rq k le s = (Return res, s, [provider_event rq k s])
               \<and> (k = 0 \<and> 0 < length (api_keys s) \<longrightarrow> generate w rq s = (Inr res, s, [provider_event rq 0 s]))
               \<and> \<not> success res \<and> rtext res = [] \<and> tokens_used res = 0 \<and> error res \<noteq> None))
       \<and> (\<not> probes_benign r \<longrightarrow>
            (\<exists>e. extract_text r = Inl e \<and> attempt w rq k s = Inl e
               \<and> exn_class e \<noteq> IndexError \<and> exn_class e \<noteq> AttributeError \<and> exn_class e \<noteq> ValueError))"
proof -
  have p1: "\<forall>t. extract_text r = Inr t \<longleftrightarrow> probes_benign r \<and> spec_text r = t"
    by (simp add: extract_text_iff)
  have p2: "\<forall>t. response_text r = Holding t \<and> t \<noteq> [] \<longrightarrow> probes_benign r \<and> spec_text r = t"
    by (simp add: probes_benign_def spec_text_def spec_direct_text_def benign_def)
  have p3: "spec_direct_text r = [] \<longrightarrow> spec_text r = spec_nested_text r"
    by (simp add: spec_text_def)
  have p4: "\<forall>t ps cs. response_text r = Missing
            \<and> response_candidates r = Holding (Candidate (Holding (Content (Holding (Part (Holding t) # ps)))) # cs) \<longrightarrow>
            probes_benign r \<and> spec_text r = t"
    by (simp add: probes_benign_def spec_text_def spec_direct_text_def benign_def nested_benign_def
          candidate_benign_def content_benign_def part_benign_def spec_nested_text_def
          spec_candidate_text_def spec_content_text_def spec_part_text_def)
  have p5: "probes_benign r \<and> spec_text r \<noteq> [] \<longrightarrow>
            retry_loop (Suc n) w rq k le s =
              (Return (success_result (spec_text r) (prompt rq)), s, [provider_event rq k s])
            \<and> (k = 0 \<and> 0 < length (api_keys s) \<longrightarrow>
                 generate w rq s = (Inr (success_result (spec_text r) (prompt rq)), s, [provider_event rq 0 s]))
            \<and> rtext (success_result (spec_text r) (prompt rq)) = spec_text r
            \<and> success (success_result (spec_text r) (prompt rq))"
  proof
    assume a: "probes_benign r \<and> spec_text r \<noteq> []"
    then have e: "extract_text r = Inr (spec_text r)" by (simp add: extract_text_benign)
    have at: "attempt w rq k s = Inr (success_result (spec_text r) (prompt rq))"
      using attempt_returned[OF assms e] a by simp
    show "retry_loop (Suc n) w rq k le s =
              (Return (success_result (spec_text r) (prompt rq)), s, [provider_event rq k s])
            \<and> (k = 0 \<and> 0 < length (api_keys s) \<longrightarrow>
                 generate w rq s = (Inr (success_result (spec_text r) (prompt rq)), s, [provider_event rq 0 s]))
            \<and> rtext (success_result (spec_text r) (prompt rq)) = spec_text r
            \<and> success (success_result (spec_text r) (prompt rq))"
      using attempt_return_everywhere[OF at, of n le] by (simp add: success_result_def)
  qed
  have p6: "probes_benign r \<and> spec_text r = [] \<longrightarrow>
            (\<exists>res. retry_loop (Suc n) w rq k le s = (Return res, s, [provider_event rq k s])
               \<and> (k = 0 \<and> 0 < length (api_keys s) \<longrightarrow> generate w rq s = (Inr res, s, [provider_event rq 0 s]))
               \<and> \<not> success res \<and> rtext res = [] \<and> tokens_used res = 0 \<and> error res \<noteq> None)"
  proof
    assume a: "probes_benign r \<and> spec_text r = []"
    then have e: "extract_text r = Inr []" using extract_text_benign[of r] by simp
    have at: "attempt w rq k s = Inr empty_response_result"
      using attempt_returned[OF assms e] by simp
    have sh: "\<not> success empty_response_result \<and> rtext empty_response_result = []
        \<and> tokens_used empty_response_result = 0 \<and> error empty_response_result \<noteq> None"
      by (simp add: empty_response_result_def)
    show "\<exists>res. retry_loop (Suc n) w rq k le s = (Return res, s, [provider_event rq k s])
               \<and> (k = 0 \<and> 0 < length (api_keys s) \<longrightarrow> generate w rq s = (Inr res, s, [provider_event rq 0 s]))
               \<and> \<not> success res \<and> rtext res = [] \<and> tokens_used res = 0 \<and> error res \<noteq> None"
      using attempt_return_everywhere[OF at, of n le] sh
      by (intro exI[of _ empty_response_result]) blast
  qed
  have p7: "\<not> probes_benign r \<longrightarrow>
            (\<exists>e. extract_text r = Inl e \<and> attempt w rq k s = Inl e
               \<and> exn_class e \<noteq> IndexError \<and> exn_class e \<noteq> AttributeError \<and> exn_class e \<noteq> ValueError)"
  proof
    assume "\<not> probes_benign r"
    from extract_text_not_benign[OF this] obtain e where
      e: "extract_text r = Inl e" "\<not> tolerated e" by blast
    have "attempt w rq k s = Inl e" using assms e(1) by (simp add: attempt_def and_then_def)
    then show "\<exists>e. extract_text r = Inl e \<and> attempt w rq k s = Inl e
               \<and> exn_class e \<noteq> IndexError \<and> exn_class e \<noteq> AttributeError \<and> exn_class e \<noteq> ValueError"
      using e by (auto simp: tolerated_def)
  qed
  show ?thesis using p1 p2 p3 p4 p5 p6 p7 by (intro conjI) assumption+
qed

theorem extraction_order_witness:
  "generate_content (answering_world guarded_response) 0 (genai_api_key pool3) (model pool3)
       (prompt hello) (make_config hello) = Inr guarded_response
   \<and> probes_benign guarded_response
   \<and> spec_text guarded_response = ''d e''
   \<and> generate (answering_world guarded_response) hello pool3 =
       (Inr \<lparr>rtext = ''d e'', success = True, tokens_used = 5, error = None\<rparr>, pool3,
        [provider_event hello 0 pool3])"
proof -
  have h: "generate_content (answering_world guarded_response) 0 (genai_api_key pool3) (model pool3)
       (prompt hello) (make_config hello) = Inr guarded_response"
    by (simp add: answering_world_def)
  have b: "probes_benign guarded_response"
    by (simp add: probes_benign_def guarded_response_def nested_de_def benign_def nested_benign_def
          candidate_benign_def content_benign_def part_benign_def)
  have t: "spec_text guarded_response = ''d e''"
    by (simp add: spec_text_def spec_direct_text_def guarded_response_def nested_de_def
          spec_nested_text_def spec_candidate_text_def spec_content_text_def spec_part_text_def)
  have sr: "success_result ''d e'' (prompt hello) = \<lparr>rtext = ''d e'', success = True, tokens_used = 5, error = None\<rparr>"
    by (simp add: success_result_def hello_def split_ws_abc split_ws_de)
  have n: "0 < length (api_keys pool3)" by (simp add: pool3_def)
  have bt: "probes_benign guarded_response \<and> spec_text guarded_response \<noteq> []" using b t by simp
  note c = extraction_order[OF h, of 2 None, THEN conjunct2, THEN conjunct2, THEN conjunct2,
      THEN conjunct2, THEN conjunct1, THEN mp, OF bt]
  from c n have "generate (answering_world guarded_response) hello pool3 =
      (Inr (success_result (spec_text guarded_response) (prompt hello)), pool3, [provider_event hello 0 pool3])"
    by blast
  then show ?thesis using h b t unfolding t sr by simp
qed

text \<open>
  The extraction does not reach the nested path of every response whose direct field is
  inaccessible. Here the accessor of the direct field raises an exception outside the
  three classes, and the nested path holds the text \<open>d e\<close>: the call returns a failure
  built from that exception, and the nested text is not used.
\<close>

theorem direct_raise_skips_nested:
  "generate_content (answering_world boom_response) 0 (genai_api_key pool1) (model pool1)
       (prompt hello) (make_config hello) = Inr boom_response
   \<and> response_text boom_response = Raising (Exn OtherException ''boom'')
   \<and> spec_nested_text boom_response = ''d e''
   \<and> generate (answering_world boom_response) hello pool1 =
       (Inr \<lparr>rtext = [], success = False, tokens_used = 0, error = Some ''boom''\<rparr>, pool1,
        [provider_event hello 0 pool1, EFallbackAttempt])"
proof -
  have h: "generate_content (answering_world boom_response) 0 (genai_api_key pool1) (model pool1)
       (prompt hello) (make_config hello) = Inr boom_response"
    by (simp add: answering_world_def)
  have rt: "response_text boom_response = Raising (Exn OtherException ''boom'')"
    by (simp add: boom_response_def)
  have nt: "spec_nested_text boom_response = ''d e''"
    by (simp add: boom_response_def nested_de_def spec_nested_text_def spec_candidate_text_def
          spec_content_text_def spec_part_text_def)
  have ex: "extract_text boom_response = Inl (Exn OtherException ''boom'')"
    by (simp add: extract_text_def text_direct_def hasattr_def and_then_def boom_response_def
          tolerated_def)
  have at: "attempt (answering_world boom_response) hello 0 pool1 = Inl (Exn OtherException ''boom'')"
    using h ex by (simp add: attempt_def and_then_def)
  have nr: "\<not> is_rate_limit (Exn OtherException ''boom'')"
    by (simp add: is_rate_limit_def rate_limit_terms_def lower_boom)
  have f: "cloudflare_fallback (answering_world boom_response) hello = (None, [EFallbackAttempt])"
    by (simp add: cloudflare_fallback_def answering_world_def)
  have l: "length (api_keys pool1) = Suc 0" by (simp add: pool1_def)
  have g: "generate (answering_world boom_response) hello pool1 =
       (Inr (failure_result (Some (Exn OtherException ''boom''))), pool1,
        [provider_event hello 0 pool1, EFallbackAttempt])"
    unfolding generate_def l using at nr f by simp
  show ?thesis using h rt nt unfolding g
    by (simp add: failure_result_def str_last_error_def)
qed

subsection \<open>An empty response ends the call\<close>

lemma retry_loop_empty_response:
  assumes "retry_loop n w rq k le s = (x, s', tr)"
      and "EGenerateContent j key m p cfg \<in> set tr"
      and "generate_content w j key m p cfg = Inr r"
      and "extract_text r = Inr []"
  shows "x = Return empty_response_result \<and> last tr = EGenerateContent j key m p cfg"
  using assms(1,2)
proof (induction n arbitrary: k le s x s' tr)
  case 0
  then show ?case by simp
next
  case (Suc n)
  show ?case
  proof (cases "EGenerateContent j key m p cfg = provider_event rq k s")
    case True
    then have "attempt w rq k s = Inr empty_response_result"
      using assms(3,4) by (simp add: attempt_def and_then_def provider_event_def)
    then show ?thesis using Suc.prems True by auto
  next
    case False
    from Suc.prems False show ?thesis unfolding retry_loop_step
      using Suc.IH
      by (auto split: sum.splits prod.splits if_splits)
  qed
qed

text \<open>
  C10 (as amended). When a provider call of a run of \<open>generate\<close> returns a response and
  the extraction ends with no text (every attribute it reads is missing, holds a value
  or raises \<open>IndexError\<close>, \<open>AttributeError\<close> or \<open>ValueError\<close>, and neither path
  holds text), the run returns the empty-response failure; that provider call is the
  last call of the run: no rotation follows it and the fallback provider is not
  attempted, whether or not it is enabled.
\<close>

theorem empty_response_returns_at_once:
  assumes "generate w rq s = (res, s', tr)"
      and "EGenerateContent j key m p cfg \<in> set tr"
      and "generate_content w j key m p cfg = Inr r"
      and "extract_text r = Inr []"
  shows "res = Inr empty_response_result
       \<and> last tr = EGenerateContent j key m p cfg
       \<and> filter is_fallback_attempt tr = []
       \<and> filter is_cloudflare_call tr = []
       \<and> probes_benign r \<and> spec_text r = []"
proof -
  obtain x s1 tr1 where l: "retry_loop (length (api_keys s)) w rq 0 None s = (x, s1, tr1)"
    by (metis prod_cases3)
  have fb: "set (snd (cloudflare_fallback w rq)) \<subseteq>
      {EFallbackAttempt, ECloudflareGenerate (prompt rq) (temperature rq) (max_tokens rq) (stop rq)}"
    by (auto simp: cloudflare_fallback_def split: option.splits sum.splits bool.splits)
  have mem: "EGenerateContent j key m p cfg \<in> set tr1"
  proof (cases x)
    case (Return r0)
    then show ?thesis using assms(1,2) l by (simp add: generate_def)
  next
    case (Break le)
    then have "set tr \<subseteq> set tr1 \<union> set (snd (cloudflare_fallback w rq))"
      using assms(1) l by (auto simp: generate_def split: prod.splits option.splits)
    then show ?thesis using assms(2) fb by auto
  next
    case (Raise e)
    then show ?thesis using assms(1,2) l by (simp add: generate_def)
  qed
  from retry_loop_empty_response[OF l mem assms(3,4)]
  have x: "x = Return empty_response_result" and lst: "last tr1 = EGenerateContent j key m p cfg"
    by simp_all
  have "tr = tr1" "res = Inr empty_response_result" using assms(1) l x by (simp_all add: generate_def)
  then show ?thesis using lst retry_loop_counts[OF l] assms(4) by (simp add: extract_text_iff)
qed

theorem empty_response_returns_at_once_witness:
  "generate empty_world hello pool3 =
     (Inr empty_response_result, pool3,
      [EGenerateContent 0 ''key-a'' ''gemini-2.0-flash'' ''a b c'' (GenerationConfig 0.7 2000 None)])
   \<and> generate_content empty_world 0 ''key-a'' ''gemini-2.0-flash'' ''a b c'' (GenerationConfig 0.7 2000 None)
       = Inr (Response (Holding []) (Holding []))
   \<and> extract_text (Response (Holding []) (Holding [])) = Inr []
   \<and> is_cloudflare_ai_enabled empty_world = Inr True
   \<and> filter is_fallback_attempt
        [EGenerateContent 0 ''key-a'' ''gemini-2.0-flash'' ''a b c'' (GenerationConfig 0.7 2000 None)] = []"
proof -
  let ?ev = "EGenerateContent 0 ''key-a'' ''gemini-2.0-flash'' ''a b c'' (GenerationConfig 0.7 2000 None)"
  let ?r = "Response (Holding []) (Holding [])"
  have h3: "generate_content empty_world 0 ''key-a'' ''gemini-2.0-flash'' ''a b c'' (GenerationConfig 0.7 2000 None) = Inr ?r"
    by (simp add: empty_world_def)
  have h4: "extract_text ?r = Inr []"
    by (simp add: extract_text_def text_direct_def text_candidates_def hasattr_def getattr_def and_then_def)
  have a: "attempt empty_world hello 0 pool3 = Inr empty_response_result"
    using h3 h4 by (simp add: attempt_def and_then_def hello_def pool3_def make_config_def)
  have g: "generate empty_world hello pool3 = (Inr empty_response_result, pool3, [?ev])"
    using a by (simp add: generate_def pool3_def provider_event_def hello_def make_config_def)
  have h2: "?ev \<in> set [?ev]" by simp
  have "is_cloudflare_ai_enabled empty_world = Inr True" by (simp add: empty_world_def)
  then show ?thesis
    using empty_response_returns_at_once[OF g h2 h3 h4] g h3 h4 by simp
qed

text \<open>
  A response from which no text can be extracted does not always end the run. Here the
  accessor of the direct field raises an exception outside the three classes whose
  description names a quota, and the nested path is missing: on a pool of two keys the
  run rotates after each of the two provider calls and then calls the enabled fallback
  provider, whose result it returns.
\<close>

theorem unreadable_response_rotates:
  "generate_content unreadable_world 0 (genai_api_key pool2) (model pool2) (prompt hello) (make_config hello)
     = Inr unreadable_response
   \<and> spec_text unreadable_response = []
   \<and> is_cloudflare_ai_enabled unreadable_world = Inr True
   \<and> generate unreadable_world hello pool2 =
       (Inr cloudflare_answer,
        pool2\<lparr>key_cooldowns := [0 \<mapsto> 1700000000, Suc 0 \<mapsto> 1700000001], current_key_index := Suc 0,
              genai_api_key := ''key-b''\<rparr>,
        [EGenerateContent 0 ''key-a'' ''gemini-2.0-flash'' ''a b c'' (GenerationConfig 0.7 2000 None),
         ERotateKey 1700000000,
         EGenerateContent 1 ''key-b'' ''gemini-2.0-flash'' ''a b c'' (GenerationConfig 0.7 2000 None),
         ERotateKey 1700000001,
         EFallbackAttempt,
         ECloudflareGenerate ''a b c'' 0.7 2000 None])"
proof -
  let ?e = "Exn OtherException ''quota exceeded''"
  let ?s1 = "pool2\<lparr>key_cooldowns := [0 \<mapsto> 1700000000], current_key_index := Suc 0, genai_api_key := ''key-b''\<rparr>"
  let ?s2 = "pool2\<lparr>key_cooldowns := [0 \<mapsto> 1700000000, Suc 0 \<mapsto> 1700000001], current_key_index := Suc 0,
              genai_api_key := ''key-b''\<rparr>"
  have h: "generate_content unreadable_world k key m p cfg = Inr unreadable_response" for k key m p cfg
    by (simp add: unreadable_world_def)
  have st: "spec_text unreadable_response = []"
    by (simp add: spec_text_def spec_direct_text_def spec_nested_text_def unreadable_response_def)
  have en: "is_cloudflare_ai_enabled unreadable_world = Inr True"
    by (simp add: unreadable_world_def)
  have ex: "extract_text unreadable_response = Inl ?e"
    by (simp add: extract_text_def text_direct_def hasattr_def and_then_def unreadable_response_def
          tolerated_def)
  have a: "attempt unreadable_world hello k s = Inl ?e" for k s
    using h ex by (simp add: attempt_def and_then_def)
  have rl: "is_rate_limit ?e"
    by (simp add: is_rate_limit_def rate_limit_terms_def lower_quota_exceeded)
  have t: "time unreadable_world 0 = 1700000000" "time unreadable_world (Suc 0) = 1700000001"
    by (simp_all add: unreadable_world_def)
  have f: "cloudflare_fallback unreadable_world hello =
      (Some cloudflare_answer,
       [EFallbackAttempt, ECloudflareGenerate (prompt hello) (temperature hello) (max_tokens hello) (stop hello)])"
    by (simp add: cloudflare_fallback_def unreadable_world_def cloudflare_answer_def)
  have r0: "rotate_key 1700000000 pool2 = (Inr True, ?s1)"
    by (simp add: rotate_key_def pool2_def configure_current_key_def cooldown_get_def Let_def)
  have r1: "rotate_key 1700000001 ?s1 = (Inr False, ?s2)"
    by (simp add: rotate_key_def pool2_def configure_current_key_def cooldown_get_def Let_def)
  have l: "length (api_keys pool2) = Suc (Suc 0)" by (simp add: pool2_def)
  have g0: "generate unreadable_world hello pool2 =
      (Inr cloudflare_answer, ?s2,
       [provider_event hello 0 pool2, ERotateKey 1700000000,
        provider_event hello (Suc 0) ?s1, ERotateKey 1700000001,
        EFallbackAttempt, ECloudflareGenerate (prompt hello) (temperature hello) (max_tokens hello) (stop hello)])"
    unfolding generate_def l
    using rl
    by (simp add: a t r0 r1 f)
  have ev: "provider_event hello 0 pool2 =
       EGenerateContent 0 ''key-a'' ''gemini-2.0-flash'' ''a b c'' (GenerationConfig 0.7 2000 None)"
     "provider_event hello (Suc 0) ?s1 =
       EGenerateContent 1 ''key-b'' ''gemini-2.0-flash'' ''a b c'' (GenerationConfig 0.7 2000 None)"
    by (simp_all add: provider_event_def make_config_def hello_def pool2_def)
  have hp: "prompt hello = ''a b c''" "temperature hello = 0.7" "max_tokens hello = 2000" "stop hello = None"
    by (simp_all add: hello_def)
  show ?thesis
    using h st en unfolding g0 ev hp by simp
qed

subsection \<open>Classification of provider errors\<close>

lemma attempt_raised:
  "generate_content w k (genai_api_key s) (model s) (prompt rq) (make_config rq) = Inl e
   \<Longrightarrow> attempt w rq k s = Inl e"
  by (simp add: attempt_def and_then_def)

lemma is_rate_limit_iff:
  "is_rate_limit e \<longleftrightarrow> (\<exists>t\<in>set rate_limit_terms. \<exists>pre post. lower (exn_str e) = pre @ t @ post)"
  by (simp add: is_rate_limit_def list_ex_iff contains_iff)

lemma lower_quota: "lower ''429 Resource Exhausted: Quota exceeded'' = ''429 resource exhausted: quota exceeded''"
  by code_simp

lemma lower_server: "lower ''500 Internal Server Error'' = ''500 internal server error''"
  by code_simp

lemma quota_is_rate_limit: "is_rate_limit quota_error"
  by (simp add: is_rate_limit_def quota_error_def lower_quota rate_limit_terms_def)

lemma server_not_rate_limit: "\<not> is_rate_limit server_error"
  by (simp add: is_rate_limit_def server_error_def lower_server rate_limit_terms_def)

text \<open>
  C6. An exception of the provider call is classified as a rate-limit error exactly
  when its lower-cased description contains one of the six fixed substrings, so the
  classification does not depend on the case of the description. A provider error
  that is not so classified ends the retry loop at once, with no rotation; a rate-limit
  error whose rotation fails ends the loop too; only a rate-limit error whose rotation
  succeeds continues with the next attempt on the new key.
\<close>

theorem rate_limit_classification:
  "(is_rate_limit e \<longleftrightarrow>
      (\<exists>t\<in>{''rate limit'', ''quota'', ''429'', ''resource exhausted'', ''too many requests'', ''rate_limit''}.
         \<exists>pre post. lower (exn_str e) = pre @ t @ post))
   \<and> (\<forall>e'. lower (exn_str e') = lower (exn_str e) \<longrightarrow> is_rate_limit e' = is_rate_limit e)
   \<and> (generate_content w k (genai_api_key s) (model s) (prompt rq) (make_config rq) = Inl e \<longrightarrow>
        (\<not> is_rate_limit e \<longrightarrow>
           retry_loop (Suc n) w rq k le s = (Break (Some e), s, [provider_event rq k s]))
      \<and> (is_rate_limit e \<and> fst (rotate_key (time w k) s) \<noteq> Inr True \<longrightarrow>
           retry_loop (Suc n) w rq k le s =
             (Break (Some e), snd (rotate_key (time w k) s), [provider_event rq k s, ERotateKey (time w k)]))
      \<and> (is_rate_limit e \<and> fst (rotate_key (time w k) s) = Inr True \<longrightarrow>
           retry_loop (Suc n) w rq k le s =
             (case retry_loop n w rq (Suc k) (Some e) (snd (rotate_key (time w k) s)) of
                (x, s2, tr) \<Rightarrow> (x, s2, provider_event rq k s # ERotateKey (time w k) # tr))))"
proof -
  have a: "is_rate_limit e \<longleftrightarrow>
      (\<exists>t\<in>{''rate limit'', ''quota'', ''429'', ''resource exhausted'', ''too many requests'', ''rate_limit''}.
         \<exists>pre post. lower (exn_str e) = pre @ t @ post)"
    unfolding is_rate_limit_iff by (simp add: rate_limit_terms_def)
  have b: "\<forall>e'. lower (exn_str e') = lower (exn_str e) \<longrightarrow> is_rate_limit e' = is_rate_limit e"
    by (simp add: is_rate_limit_def)
  have c: "generate_content w k (genai_api_key s) (model s) (prompt rq) (make_config rq) = Inl e \<longrightarrow>
        (\<not> is_rate_limit e \<longrightarrow>
           retry_loop (Suc n) w rq k le s = (Break (Some e), s, [provider_event rq k s]))
      \<and> (is_rate_limit e \<and> fst (rotate_key (time w k) s) \<noteq> Inr True \<longrightarrow>
           retry_loop (Suc n) w rq k le s =
             (Break (Some e), snd (rotate_key (time w k) s), [provider_event rq k s, ERotateKey (time w k)]))
      \<and> (is_rate_limit e \<and> fst (rotate_key (time w k) s) = Inr True \<longrightarrow>
           retry_loop (Suc n) w rq k le s =
             (case retry_loop n w rq (Suc k) (Some e) (snd (rotate_key (time w k) s)) of
                (x, s2, tr) \<Rightarrow> (x, s2, provider_event rq k s # ERotateKey (time w k) # tr)))"
  proof
    assume "generate_content w k (genai_api_key s) (model s) (prompt rq) (make_config rq) = Inl e"
    then have "attempt w rq k s = Inl e" by (rule attempt_raised)
    then show "(\<not> is_rate_limit e \<longrightarrow>
           retry_loop (Suc n) w rq k le s = (Break (Some e), s, [provider_event rq k s]))
      \<and> (is_rate_limit e \<and> fst (rotate_key (time w k) s) \<noteq> Inr True \<longrightarrow>
           retry_loop (Suc n) w rq k le s =
             (Break (Some e), snd (rotate_key (time w k) s), [provider_event rq k s, ERotateKey (time w k)]))
      \<and> (is_rate_limit e \<and> fst (rotate_key (time w k) s) = Inr True \<longrightarrow>
           retry_loop (Suc n) w rq k le s =
             (case retry_loop n w rq (Suc k) (Some e) (snd (rotate_key (time w k) s)) of
                (x, s2, tr) \<Rightarrow> (x, s2, provider_event rq k s # ERotateKey (time w k) # tr)))"
      unfolding retry_loop_step by simp
  qed
  show ?thesis using a b c by blast
qed

theorem rate_limit_classification_witness:
  "generate_content (failing_world server_error) 0 (genai_api_key pool3) (model pool3) (prompt hello) (make_config hello)
     = Inl server_error
   \<and> \<not> is_rate_limit server_error
   \<and> retry_loop (Suc 2) (failing_world server_error) hello 0 None pool3 =
       (Break (Some server_error), pool3, [provider_event hello 0 pool3])"
proof -
  have h: "generate_content (failing_world server_error) 0 (genai_api_key pool3) (model pool3) (prompt hello) (make_config hello)
     = Inl server_error"
    by (simp add: failing_world_def)
  show ?thesis
    using rate_limit_classification[of server_error "failing_world server_error" 0 pool3 hello 2 None]
      h server_not_rate_limit
    by simp
qed


subsection \<open>The fallback\<close>

lemma retry_loop_break_error:
  "retry_loop n w rq k le s = (Break le', s', tr) \<Longrightarrow>
     (n = 0 \<and> le' = le) \<or> (\<exists>e j sj. le' = Some e \<and> attempt w rq j sj = Inl e)"
proof (induction n arbitrary: k le s s' tr)
  case 0
  then show ?case by simp
next
  case (Suc n)
  from Suc.prems show ?case unfolding retry_loop_step
    using Suc.IH
    by (fastforce split: sum.splits prod.splits if_splits)
qed

lemma retry_loop_return:
  "retry_loop n w rq k le s = (Return res, s', tr) \<Longrightarrow> \<exists>j sj. attempt w rq j sj = Inr res"
proof (induction n arbitrary: k le s s' tr)
  case 0
  then show ?case by simp
next
  case (Suc n)
  from Suc.prems show ?case unfolding retry_loop_step
    using Suc.IH
    by (fastforce split: sum.splits prod.splits if_splits)
qed

lemma attempt_result:
  assumes "attempt w rq j sj = Inr res"
  shows "res = empty_response_result \<or>
     (\<exists>r tx. generate_content w j (genai_api_key sj) (model sj) (prompt rq) (make_config rq) = Inr r
        \<and> extract_text r = Inr tx \<and> tx \<noteq> [] \<and> res = success_result tx (prompt rq))"
  using assms by (auto simp: attempt_def and_then_def split: sum.splits if_splits)

lemma fallback_trace:
  "snd (cloudflare_fallback w rq) =
     (if cloudflare_import w = None \<and> is_cloudflare_ai_enabled w = Inr True \<and> get_cloudflare_ai w = None
      then [EFallbackAttempt, ECloudflareGenerate (prompt rq) (temperature rq) (max_tokens rq) (stop rq)]
      else [EFallbackAttempt])"
  by (auto simp: cloudflare_fallback_def split: option.splits sum.splits bool.splits)

lemma fallback_result:
  "fst (cloudflare_fallback w rq) =
     (if cloudflare_import w = None \<and> is_cloudflare_ai_enabled w = Inr True \<and> get_cloudflare_ai w = None
      then (case cloudflare_generate w (prompt rq) (temperature rq) (max_tokens rq) (stop rq) of
              Inl e \<Rightarrow> None
            | Inr fres \<Rightarrow> (if success fres then Some fres else None))
      else None)"
  by (auto simp: cloudflare_fallback_def split: option.splits sum.splits bool.splits)

lemma generate_break:
  assumes "retry_loop (length (api_keys s)) w rq 0 None s = (Break le, s1, tr)"
  shows "generate w rq s =
     (Inr (case fst (cloudflare_fallback w rq) of Some fres \<Rightarrow> fres | None \<Rightarrow> failure_result le),
      s1, tr @ snd (cloudflare_fallback w rq))"
  using assms by (simp add: generate_def split: prod.splits option.splits)

text \<open>
  C5. When the retry loop ends without a result, \<open>generate\<close> enters the fallback block
  exactly once. If the module of the secondary provider imports, reports the provider
  enabled and hands out its client, the client's \<open>generate\<close> is called once with the
  same prompt, temperature, \<open>max_tokens\<close> and \<open>stop\<close>, and its result is returned as it
  is when it reports success; an unsuccessful result or an exception of the fallback is
  dropped, and the failure dictionary built from the last provider error is returned.
  Otherwise the secondary provider is not called and that failure dictionary is returned.
\<close>

theorem fallback_after_exhaustion:
  assumes "retry_loop (length (api_keys s)) w rq 0 None s = (Break le, s1, tr)"
  shows "\<exists>res ftr. generate w rq s = (Inr res, s1, tr @ ftr)
      \<and> length (filter is_fallback_attempt (tr @ ftr)) = 1
      \<and> length (filter is_cloudflare_call (tr @ ftr)) \<le> 1
      \<and> (cloudflare_import w = None \<and> is_cloudflare_ai_enabled w = Inr True \<and> get_cloudflare_ai w = None \<longrightarrow>
           ftr = [EFallbackAttempt, ECloudflareGenerate (prompt rq) (temperature rq) (max_tokens rq) (stop rq)]
           \<and> (\<forall>fres. cloudflare_generate w (prompt rq) (temperature rq) (max_tokens rq) (stop rq) = Inr fres \<longrightarrow>
                 res = (if success fres then fres else failure_result le))
           \<and> (\<forall>e. cloudflare_generate w (prompt rq) (temperature rq) (max_tokens rq) (stop rq) = Inl e \<longrightarrow>
                 res = failure_result le))
      \<and> (\<not> (cloudflare_import w = None \<and> is_cloudflare_ai_enabled w = Inr True \<and> get_cloudflare_ai w = None) \<longrightarrow>
           ftr = [EFallbackAttempt] \<and> res = failure_result le)
      \<and> (0 < length (api_keys s) \<longrightarrow>
           (\<exists>e j sj. le = Some e \<and> attempt w rq j sj = Inl e
              \<and> failure_result le = \<lparr>rtext = [], success = False, tokens_used = 0, error = Some (exn_str e)\<rparr>))"
proof -
  let ?res = "case fst (cloudflare_fallback w rq) of Some fres \<Rightarrow> fres | None \<Rightarrow> failure_result le"
  let ?ftr = "snd (cloudflare_fallback w rq)"
  have g: "generate w rq s = (Inr ?res, s1, tr @ ?ftr)" by (rule generate_break[OF assms])
  have c: "filter is_fallback_attempt tr = []" "filter is_cloudflare_call tr = []"
    using retry_loop_counts[OF assms] by simp_all
  have n1: "length (filter is_fallback_attempt (tr @ ?ftr)) = 1"
    by (simp add: c fallback_trace is_fallback_attempt_def)
  have n2: "length (filter is_cloudflare_call (tr @ ?ftr)) \<le> 1"
    by (simp add: c fallback_trace is_cloudflare_call_def)
  have en: "cloudflare_import w = None \<and> is_cloudflare_ai_enabled w = Inr True \<and> get_cloudflare_ai w = None \<longrightarrow>
           ?ftr = [EFallbackAttempt, ECloudflareGenerate (prompt rq) (temperature rq) (max_tokens rq) (stop rq)]
           \<and> (\<forall>fres. cloudflare_generate w (prompt rq) (temperature rq) (max_tokens rq) (stop rq) = Inr fres \<longrightarrow>
                 ?res = (if success fres then fres else failure_result le))
           \<and> (\<forall>e. cloudflare_generate w (prompt rq) (temperature rq) (max_tokens rq) (stop rq) = Inl e \<longrightarrow>
                 ?res = failure_result le)"
    by (simp add: fallback_trace fallback_result)
  have dis: "\<not> (cloudflare_import w = None \<and> is_cloudflare_ai_enabled w = Inr True \<and> get_cloudflare_ai w = None) \<longrightarrow>
           ?ftr = [EFallbackAttempt] \<and> ?res = failure_result le"
    by (simp add: fallback_trace fallback_result)
  have err: "0 < length (api_keys s) \<longrightarrow>
           (\<exists>e j sj. le = Some e \<and> attempt w rq j sj = Inl e
              \<and> failure_result le = \<lparr>rtext = [], success = False, tokens_used = 0, error = Some (exn_str e)\<rparr>)"
  proof
    assume "0 < length (api_keys s)"
    with retry_loop_break_error[OF assms] obtain e j sj where
      e: "le = Some e" "attempt w rq j sj = Inl e" by auto
    have "failure_result le = \<lparr>rtext = [], success = False, tokens_used = 0, error = Some (exn_str e)\<rparr>"
      using e(1) by (simp add: failure_result_def str_last_error_def)
    then show "\<exists>e j sj. le = Some e \<and> attempt w rq j sj = Inl e
              \<and> failure_result le = \<lparr>rtext = [], success = False, tokens_used = 0, error = Some (exn_str e)\<rparr>"
      using e by blast
  qed
  show ?thesis
    using g n1 n2 en dis err by blast
qed


theorem fallback_after_exhaustion_witness:
  "retry_loop (length (api_keys pool3)) fallback_world hello 0 None pool3 =
     (Break (Some server_error), pool3, [provider_event hello 0 pool3])
   \<and> generate fallback_world hello pool3 =
     (Inr cloudflare_answer, pool3,
      [provider_event hello 0 pool3, EFallbackAttempt, ECloudflareGenerate ''a b c'' 0.7 2000 None])"
proof -
  have a: "attempt fallback_world hello 0 pool3 = Inl server_error"
    by (simp add: attempt_def and_then_def fallback_world_def)
  have l: "retry_loop (length (api_keys pool3)) fallback_world hello 0 None pool3 =
     (Break (Some server_error), pool3, [provider_event hello 0 pool3])"
    using a server_not_rate_limit by (simp add: pool3_def)
  have c: "cloudflare_import fallback_world = None \<and> is_cloudflare_ai_enabled fallback_world = Inr True
      \<and> get_cloudflare_ai fallback_world = None"
    by (simp add: fallback_world_def)
  have f: "cloudflare_generate fallback_world (prompt hello) (temperature hello) (max_tokens hello) (stop hello)
      = Inr cloudflare_answer"
    by (simp add: fallback_world_def)
  have sc: "success cloudflare_answer" by (simp add: cloudflare_answer_def)
  from fallback_after_exhaustion[OF l] c f sc
  have "generate fallback_world hello pool3 =
     (Inr cloudflare_answer, pool3,
      [provider_event hello 0 pool3] @
      [EFallbackAttempt, ECloudflareGenerate (prompt hello) (temperature hello) (max_tokens hello) (stop hello)])"
    by auto
  then show ?thesis using l by (simp add: hello_def)
qed

subsection \<open>Failures are values for \<open>generate\<close>, exceptions for \<open>chat\<close>\<close>

lemma generate_cases:
  "(\<exists>res s' tr. generate w rq s = (Inr res, s', tr) \<and> retry_loop (length (api_keys s)) w rq 0 None s = (Return res, s', tr))
   \<or> (\<exists>le s' tr. retry_loop (length (api_keys s)) w rq 0 None s = (Break le, s', tr)
        \<and> generate w rq s =
           (Inr (case fst (cloudflare_fallback w rq) of Some fres \<Rightarrow> fres | None \<Rightarrow> failure_result le),
            s', tr @ snd (cloudflare_fallback w rq)))"
proof -
  obtain x s' tr where l: "retry_loop (length (api_keys s)) w rq 0 None s = (x, s', tr)"
    by (metis prod_cases3)
  show ?thesis
  proof (cases x)
    case (Return res)
    then show ?thesis using l by (simp add: generate_def)
  next
    case (Break le)
    then show ?thesis using l generate_break[of s w rq le s' tr] by simp
  next
    case (Raise e)
    then show ?thesis using l retry_loop_not_raise by blast
  qed
qed

lemma retry_loop_response_event:
  assumes "retry_loop n w rq k le s = (x, s', tr)"
      and "EGenerateContent j key m p cfg \<in> set tr"
      and "generate_content w j key m p cfg = Inr r"
      and "extract_text r = Inr tx"
      and "tx \<noteq> []"
  shows "x = Return (success_result tx (prompt rq))"
  using assms(1,2)
proof (induction n arbitrary: k le s x s' tr)
  case 0
  then show ?case by simp
next
  case (Suc n)
  show ?case
  proof (cases "EGenerateContent j key m p cfg = provider_event rq k s")
    case True
    then have "attempt w rq k s = Inr (success_result tx (prompt rq))"
      using assms(3,4,5) by (simp add: attempt_def and_then_def provider_event_def)
    then show ?thesis using Suc.prems by auto
  next
    case False
    from Suc.prems False show ?thesis unfolding retry_loop_step
      using Suc.IH
      by (auto split: sum.splits prod.splits if_splits)
  qed
qed

lemma retry_loop_return_event:
  "retry_loop n w rq k le s = (Return res, s', tr) \<Longrightarrow>
     \<exists>j sj. attempt w rq j sj = Inr res \<and> provider_event rq j sj \<in> set tr"
proof (induction n arbitrary: k le s s' tr)
  case 0
  then show ?case by simp
next
  case (Suc n)
  show ?case
  proof (cases "attempt w rq k s")
    case (Inr res0)
    then have "res0 = res \<and> tr = [provider_event rq k s]" using Suc.prems by auto
    then show ?thesis using Inr by auto
  next
    case (Inl e)
    show ?thesis
    proof (cases "is_rate_limit e \<and> fst (rotate_key (time w k) s) = Inr True")
      case True
      obtain x1 s2 tr1 where r: "retry_loop n w rq (Suc k) (Some e) (snd (rotate_key (time w k) s)) = (x1, s2, tr1)"
        by (metis prod_cases3)
      from Suc.prems have "x1 = Return res" "tr = provider_event rq k s # ERotateKey (time w k) # tr1"
        unfolding retry_loop_step by (simp_all add: Inl True r)
      then show ?thesis using Suc.IH[of "Suc k" "Some e" "snd (rotate_key (time w k) s)" s2 tr1] r
        by auto
    next
      case False
      then show ?thesis using Suc.prems unfolding retry_loop_step
        by (auto simp: Inl split: if_splits)
    qed
  qed
qed

lemma fallback_events:
  "set (snd (cloudflare_fallback w rq)) \<subseteq>
      {EFallbackAttempt, ECloudflareGenerate (prompt rq) (temperature rq) (max_tokens rq) (stop rq)}"
  by (simp add: fallback_trace)

lemma generate_outcome:
  "\<exists>res s' tr. generate w rq s = (Inr res, s', tr)
      \<and> (success res \<longleftrightarrow>
           (\<exists>k key m r tx. EGenerateContent k key m (prompt rq) (make_config rq) \<in> set tr
               \<and> generate_content w k key m (prompt rq) (make_config rq) = Inr r
               \<and> extract_text r = Inr tx \<and> tx \<noteq> [])
           \<or> (ECloudflareGenerate (prompt rq) (temperature rq) (max_tokens rq) (stop rq) \<in> set tr
               \<and> (\<exists>fres. cloudflare_generate w (prompt rq) (temperature rq) (max_tokens rq) (stop rq) = Inr fres
                     \<and> success fres)))
      \<and> (\<forall>k key m r tx. EGenerateContent k key m (prompt rq) (make_config rq) \<in> set tr
               \<and> generate_content w k key m (prompt rq) (make_config rq) = Inr r
               \<and> extract_text r = Inr tx \<and> tx \<noteq> [] \<longrightarrow> res = success_result tx (prompt rq))
      \<and> (\<forall>fres. ECloudflareGenerate (prompt rq) (temperature rq) (max_tokens rq) (stop rq) \<in> set tr
               \<and> cloudflare_generate w (prompt rq) (temperature rq) (max_tokens rq) (stop rq) = Inr fres
               \<and> success fres \<longrightarrow> res = fres)
      \<and> (\<not> success res \<longrightarrow> rtext res = [] \<and> tokens_used res = 0 \<and> error res \<noteq> None)"
proof -
  let ?A = "\<lambda>tr. \<exists>k key m r tx. EGenerateContent k key m (prompt rq) (make_config rq) \<in> set tr
               \<and> generate_content w k key m (prompt rq) (make_config rq) = Inr r
               \<and> extract_text r = Inr tx \<and> tx \<noteq> []"
  let ?cf = "ECloudflareGenerate (prompt rq) (temperature rq) (max_tokens rq) (stop rq)"
  let ?cg = "cloudflare_generate w (prompt rq) (temperature rq) (max_tokens rq) (stop rq)"
  have cfk: "is_cloudflare_call ?cf" by (simp add: is_cloudflare_call_def)
  from generate_cases[of w rq s] show ?thesis
  proof (elim disjE exE conjE)
    fix res s' tr
    assume g: "generate w rq s = (Inr res, s', tr)"
       and l: "retry_loop (length (api_keys s)) w rq 0 None s = (Return res, s', tr)"
    have nocf: "?cf \<notin> set tr"
      using retry_loop_counts[OF l] cfk by (auto simp: filter_empty_conv)
    have ident: "res = success_result tx (prompt rq)"
      if "EGenerateContent k key m (prompt rq) (make_config rq) \<in> set tr"
         "generate_content w k key m (prompt rq) (make_config rq) = Inr r"
         "extract_text r = Inr tx" "tx \<noteq> []" for k key m r tx
      using retry_loop_response_event[OF l that] by simp
    from retry_loop_return_event[OF l] obtain j sj where
      at: "attempt w rq j sj = Inr res" and ev: "provider_event rq j sj \<in> set tr" by blast
    have fwd: "?A tr" if "success res"
    proof -
      from attempt_result[OF at] that obtain r tx where
        "generate_content w j (genai_api_key sj) (model sj) (prompt rq) (make_config rq) = Inr r"
        "extract_text r = Inr tx" "tx \<noteq> []"
        by (auto simp: empty_response_result_def)
      moreover have "EGenerateContent j (genai_api_key sj) (model sj) (prompt rq) (make_config rq) \<in> set tr"
        using ev by (simp add: provider_event_def)
      ultimately show ?thesis by blast
    qed
    have bwd: "success res" if "?A tr"
    proof -
      from that obtain k key m r tx where
        "EGenerateContent k key m (prompt rq) (make_config rq) \<in> set tr"
        "generate_content w k key m (prompt rq) (make_config rq) = Inr r"
        "extract_text r = Inr tx" "tx \<noteq> []" by blast
      from ident[OF this] show ?thesis by (simp add: success_result_def)
    qed
    have shape: "rtext res = [] \<and> tokens_used res = 0 \<and> error res \<noteq> None" if "\<not> success res"
      using attempt_result[OF at] that
      by (auto simp: empty_response_result_def success_result_def)
    have c1: "success res \<longleftrightarrow> ?A tr \<or> (?cf \<in> set tr \<and> (\<exists>fres. ?cg = Inr fres \<and> success fres))"
      using fwd bwd nocf by blast
    have c2: "\<forall>k key m r tx. EGenerateContent k key m (prompt rq) (make_config rq) \<in> set tr
               \<and> generate_content w k key m (prompt rq) (make_config rq) = Inr r
               \<and> extract_text r = Inr tx \<and> tx \<noteq> [] \<longrightarrow> res = success_result tx (prompt rq)"
      using ident by blast
    have c3: "\<forall>fres. ?cf \<in> set tr \<and> ?cg = Inr fres \<and> success fres \<longrightarrow> res = fres"
      using nocf by blast
    have c4: "\<not> success res \<longrightarrow> rtext res = [] \<and> tokens_used res = 0 \<and> error res \<noteq> None"
      using shape by blast
    show ?thesis
      using g c1 c2 c3 c4 by (intro exI[of _ res] exI[of _ s'] exI[of _ tr] conjI) assumption+
  next
    fix le s' tr
    let ?res = "case fst (cloudflare_fallback w rq) of Some fres \<Rightarrow> fres | None \<Rightarrow> failure_result le"
    let ?ftr = "snd (cloudflare_fallback w rq)"
    let ?en = "cloudflare_import w = None \<and> is_cloudflare_ai_enabled w = Inr True \<and> get_cloudflare_ai w = None"
    assume l: "retry_loop (length (api_keys s)) w rq 0 None s = (Break le, s', tr)"
       and g: "generate w rq s = (Inr ?res, s', tr @ ?ftr)"
    have nocf: "?cf \<notin> set tr"
      using retry_loop_counts[OF l] cfk by (auto simp: filter_empty_conv)
    have noA: "\<not> ?A (tr @ ?ftr)"
    proof
      assume "?A (tr @ ?ftr)"
      then obtain k key m r tx where
        e: "EGenerateContent k key m (prompt rq) (make_config rq) \<in> set (tr @ ?ftr)"
        and r: "generate_content w k key m (prompt rq) (make_config rq) = Inr r"
           "extract_text r = Inr tx" "tx \<noteq> []" by blast
      have "EGenerateContent k key m (prompt rq) (make_config rq) \<in> set tr"
        using e fallback_events[of w rq] by auto
      from retry_loop_response_event[OF l this r] show False by simp
    qed
    have cfmem: "?cf \<in> set (tr @ ?ftr) \<longleftrightarrow> ?en"
      using nocf by (simp add: fallback_trace)
    have fs: "success ?res \<longleftrightarrow> ?en \<and> (\<exists>fres. ?cg = Inr fres \<and> success fres)"
      by (auto simp: fallback_result failure_result_def split: sum.splits)
    have fid: "?res = fres" if "?en" "?cg = Inr fres" "success fres" for fres
      using that by (simp add: fallback_result)
    have fshape: "rtext ?res = [] \<and> tokens_used ?res = 0 \<and> error ?res \<noteq> None" if "\<not> success ?res"
      using that by (auto simp: fallback_result failure_result_def split: sum.splits if_splits)
    have c1: "success ?res \<longleftrightarrow> ?A (tr @ ?ftr)
        \<or> (?cf \<in> set (tr @ ?ftr) \<and> (\<exists>fres. ?cg = Inr fres \<and> success fres))"
      using noA cfmem fs by blast
    have c2: "\<forall>k key m r tx. EGenerateContent k key m (prompt rq) (make_config rq) \<in> set (tr @ ?ftr)
               \<and> generate_content w k key m (prompt rq) (make_config rq) = Inr r
               \<and> extract_text r = Inr tx \<and> tx \<noteq> [] \<longrightarrow> ?res = success_result tx (prompt rq)"
      using noA by blast
    have c3: "\<forall>fres. ?cf \<in> set (tr @ ?ftr) \<and> ?cg = Inr fres \<and> success fres \<longrightarrow> ?res = fres"
      using cfmem fid by blast
    have c4: "\<not> success ?res \<longrightarrow> rtext ?res = [] \<and> tokens_used ?res = 0 \<and> error ?res \<noteq> None"
      using fshape by blast
    show ?thesis
      using g c1 c2 c3 c4
      by (intro exI[of _ ?res] exI[of _ s'] exI[of _ "tr @ ?ftr"] conjI) assumption+
  qed
qed

text \<open>
  C4. Whatever the provider and the fallback do, \<open>generate\<close> returns a dictionary and
  raises nothing. Its \<open>success\<close> flag is true exactly when a provider call of the run
  returned a response with extracted text, or the fallback provider was called and
  returned a successful result; the dictionary is then the success result for that text,
  or the result of the fallback; a dictionary with \<open>success\<close> false has empty text, 0
  tokens and an error description. \<open>chat\<close> returns the text of a successful result of
  its \<open>generate\<close> call and raises an exception carrying the error description when
  that result reports failure.
\<close>

theorem generate_never_raises:
  "(\<exists>res s' tr. generate w rq s = (Inr res, s', tr)
      \<and> (success res \<longleftrightarrow>
           (\<exists>k key m r tx. EGenerateContent k key m (prompt rq) (make_config rq) \<in> set tr
               \<and> generate_content w k key m (prompt rq) (make_config rq) = Inr r
               \<and> extract_text r = Inr tx \<and> tx \<noteq> [])
           \<or> (ECloudflareGenerate (prompt rq) (temperature rq) (max_tokens rq) (stop rq) \<in> set tr
               \<and> (\<exists>fres. cloudflare_generate w (prompt rq) (temperature rq) (max_tokens rq) (stop rq) = Inr fres
                     \<and> success fres)))
      \<and> (\<forall>k key m r tx. EGenerateContent k key m (prompt rq) (make_config rq) \<in> set tr
               \<and> generate_content w k key m (prompt rq) (make_config rq) = Inr r
               \<and> extract_text r = Inr tx \<and> tx \<noteq> [] \<longrightarrow> res = success_result tx (prompt rq))
      \<and> (\<forall>fres. ECloudflareGenerate (prompt rq) (temperature rq) (max_tokens rq) (stop rq) \<in> set tr
               \<and> cloudflare_generate w (prompt rq) (temperature rq) (max_tokens rq) (stop rq) = Inr fres
               \<and> success fres \<longrightarrow> res = fres)
      \<and> (\<not> success res \<longrightarrow> rtext res = [] \<and> tokens_used res = 0 \<and> error res \<noteq> None))
   \<and> (\<exists>res s' tr.
        generate w \<lparr>prompt = messages_to_prompt messages, temperature = temp, max_tokens = maxtok, stop = None\<rparr> s
          = (Inr res, s', tr)
        \<and> (success res \<longrightarrow> chat w messages temp maxtok s = (Inr (rtext res), s', tr))
        \<and> (\<not> success res \<longrightarrow>
             (\<exists>e. chat w messages temp maxtok s = (Inl e, s', tr) \<and> error res = Some (exn_str e))))"
proof -
  let ?rq = "\<lparr>prompt = messages_to_prompt messages, temperature = temp, max_tokens = maxtok, stop = None\<rparr>"
  from generate_outcome[of w ?rq s] obtain res s' tr where
    g: "generate w ?rq s = (Inr res, s', tr)"
    and sh: "\<not> success res \<longrightarrow> rtext res = [] \<and> tokens_used res = 0 \<and> error res \<noteq> None"
    by blast
  have c1: "success res \<longrightarrow> chat w messages temp maxtok s = (Inr (rtext res), s', tr)"
    using g by (simp add: chat_def)
  have c2: "\<not> success res \<longrightarrow>
             (\<exists>e. chat w messages temp maxtok s = (Inl e, s', tr) \<and> error res = Some (exn_str e))"
    using g sh by (auto simp: chat_def)
  have "\<exists>res s' tr.
        generate w ?rq s = (Inr res, s', tr)
        \<and> (success res \<longrightarrow> chat w messages temp maxtok s = (Inr (rtext res), s', tr))
        \<and> (\<not> success res \<longrightarrow>
             (\<exists>e. chat w messages temp maxtok s = (Inl e, s', tr) \<and> error res = Some (exn_str e)))"
    using g c1 c2 by blast
  then show ?thesis using generate_outcome[of w rq s] by (intro conjI) assumption+
qed

theorem generate_never_raises_witness:
  "generate (answering_world (nested_only ''d e'')) hello pool1
     = (Inr \<lparr>rtext = ''d e'', success = True, tokens_used = 5, error = None\<rparr>, pool1,
        [provider_event hello 0 pool1])
   \<and> chat (answering_world (nested_only ''d e'')) greeting 0.7 1024 pool1
     = (Inr ''d e'', pool1,
        [EGenerateContent 0 ''key-a'' ''gemini-2.0-flash'' (messages_to_prompt greeting)
           (GenerationConfig 0.7 1024 None)])
   \<and> generate (failing_world server_error)
      \<lparr>prompt = messages_to_prompt greeting, temperature = 0.7, max_tokens = 1024, stop = None\<rparr> pool1
     = (Inr \<lparr>rtext = [], success = False, tokens_used = 0, error = Some ''500 Internal Server Error''\<rparr>,
        pool1,
        [EGenerateContent 0 ''key-a'' ''gemini-2.0-flash'' (messages_to_prompt greeting)
           (GenerationConfig 0.7 1024 None), EFallbackAttempt])
   \<and> chat (failing_world server_error) greeting 0.7 1024 pool1
     = (Inl (Exn OtherException ''500 Internal Server Error''), pool1,
        [EGenerateContent 0 ''key-a'' ''gemini-2.0-flash'' (messages_to_prompt greeting)
           (GenerationConfig 0.7 1024 None), EFallbackAttempt])"
proof -
  let ?rq = "\<lparr>prompt = messages_to_prompt greeting, temperature = 0.7, max_tokens = 1024, stop = None\<rparr>"
  let ?ev = "EGenerateContent 0 ''key-a'' ''gemini-2.0-flash'' (messages_to_prompt greeting)
           (GenerationConfig 0.7 1024 None)"
  let ?w = "answering_world (nested_only ''d e'')"
  have l: "length (api_keys pool1) = Suc 0" by (simp add: pool1_def)
  have ex: "extract_text (nested_only ''d e'') = Inr ''d e''"
    by (simp add: extract_text_def text_direct_def text_candidates_def text_of_candidate_def
          text_of_content_def text_of_part_def hasattr_def getattr_def and_then_def nested_only_def)
  have a1: "attempt ?w rq0 k s0 = Inr (success_result ''d e'' (prompt rq0))" for rq0 k s0
    using ex by (simp add: attempt_def and_then_def answering_world_def)
  have ev1: "provider_event ?rq 0 pool1 = ?ev"
    by (simp add: provider_event_def make_config_def pool1_def)
  have g1: "generate ?w hello pool1 = (Inr (success_result ''d e'' (prompt hello)), pool1, [provider_event hello 0 pool1])"
    unfolding generate_def l by (simp add: a1)
  have sr: "success_result ''d e'' (prompt hello) = \<lparr>rtext = ''d e'', success = True, tokens_used = 5, error = None\<rparr>"
    by (simp add: success_result_def hello_def split_ws_abc split_ws_de)
  have g2: "generate ?w ?rq pool1 = (Inr (success_result ''d e'' (prompt ?rq)), pool1, [?ev])"
    unfolding generate_def l by (simp add: a1 ev1)
  have c2: "chat ?w greeting 0.7 1024 pool1 = (Inr ''d e'', pool1, [?ev])"
    using g2 by (simp add: chat_def success_result_def)
  have a: "attempt (failing_world server_error) ?rq 0 pool1 = Inl server_error"
    by (simp add: attempt_def and_then_def failing_world_def)
  have f: "cloudflare_fallback (failing_world server_error) ?rq = (None, [EFallbackAttempt])"
    by (simp add: cloudflare_fallback_def failing_world_def)
  have g3: "generate (failing_world server_error) ?rq pool1
     = (Inr \<lparr>rtext = [], success = False, tokens_used = 0, error = Some ''500 Internal Server Error''\<rparr>,
        pool1, [?ev, EFallbackAttempt])"
    unfolding generate_def l
    using a f server_not_rate_limit
    by (simp add: ev1 failure_result_def str_last_error_def server_error_def)
  have c4: "chat (failing_world server_error) greeting 0.7 1024 pool1
     = (Inl (Exn OtherException ''500 Internal Server Error''), pool1, [?ev, EFallbackAttempt])"
    using generate_never_raises[of "failing_world server_error" ?rq pool1 greeting "0.7" "1024"] g3
    by (auto simp: chat_def)
  show ?thesis using g1 c2 g3 c4 unfolding sr by (intro conjI) assumption+
qed

subsection \<open>How often a run rotates\<close>

lemma retry_loop_all_rate_limited:
  assumes "\<forall>k key m. \<exists>e. generate_content w k key m (prompt rq) (make_config rq) = Inl e \<and> is_rate_limit e"
  shows "retry_loop n w rq k le s = (x, s', tr) \<Longrightarrow>
     (\<exists>le'. x = Break le')
     \<and> length (filter is_rotate tr) = length (filter is_provider_call tr)
     \<and> (0 < n \<longrightarrow> 1 \<le> length (filter is_rotate tr))"
proof (induction n arbitrary: k le s x s' tr)
  case 0
  then show ?case by auto
next
  case (Suc n)
  from assms obtain e where
    e: "generate_content w k (genai_api_key s) (model s) (prompt rq) (make_config rq) = Inl e" "is_rate_limit e"
    by blast
  have a: "attempt w rq k s = Inl e" by (rule attempt_raised[OF e(1)])
  show ?case
  proof (cases "fst (rotate_key (time w k) s) = Inr True")
    case True
    obtain x1 s2 tr1 where r: "retry_loop n w rq (Suc k) (Some e) (snd (rotate_key (time w k) s)) = (x1, s2, tr1)"
      by (metis prod_cases3)
    from Suc.prems have "x = x1" "tr = provider_event rq k s # ERotateKey (time w k) # tr1"
      unfolding retry_loop_step by (simp_all add: a e(2) True r)
    then show ?thesis using Suc.IH[OF r] by (simp add: event_kinds)
  next
    case False
    from Suc.prems have "x = Break (Some e)" "tr = [provider_event rq k s, ERotateKey (time w k)]"
      unfolding retry_loop_step by (simp_all add: a e(2) False)
    then show ?thesis by (simp add: event_kinds)
  qed
qed

text \<open>
  C1 (as amended). For a pool of N > 1 keys, when every call to the provider raises a
  rate-limit error, one call of \<open>generate\<close> invokes \<open>_rotate_key\<close> once after each
  provider call, at least once and at most N times; all rotations come before the
  fallback block, which is then entered.
\<close>

theorem rotations_bounded_by_pool:
  assumes "1 < length (api_keys s)"
      and "\<forall>k key m. \<exists>e. generate_content w k key m (prompt rq) (make_config rq) = Inl e \<and> is_rate_limit e"
  shows "\<exists>res s' tr ftr. generate w rq s = (Inr res, s', tr @ ftr)
      \<and> length (filter is_rotate tr) \<le> length (api_keys s)
      \<and> length (filter is_rotate tr) = length (filter is_provider_call tr)
      \<and> 1 \<le> length (filter is_rotate tr)
      \<and> filter is_fallback_attempt tr = []
      \<and> ftr = snd (cloudflare_fallback w rq)
      \<and> hd ftr = EFallbackAttempt
      \<and> filter is_rotate ftr = []"
proof -
  obtain x s' tr where l: "retry_loop (length (api_keys s)) w rq 0 None s = (x, s', tr)"
    by (metis prod_cases3)
  from retry_loop_all_rate_limited[OF assms(2) l] assms(1) obtain le where
    x: "x = Break le" and eq: "length (filter is_rotate tr) = length (filter is_provider_call tr)"
    and ge: "1 \<le> length (filter is_rotate tr)" by auto
  have g: "generate w rq s =
     (Inr (case fst (cloudflare_fallback w rq) of Some fres \<Rightarrow> fres | None \<Rightarrow> failure_result le),
      s', tr @ snd (cloudflare_fallback w rq))"
    using generate_break[of s w rq le s' tr] l x by simp
  have f: "hd (snd (cloudflare_fallback w rq)) = EFallbackAttempt"
     "filter is_rotate (snd (cloudflare_fallback w rq)) = []"
    by (simp_all add: fallback_trace is_rotate_def)
  show ?thesis using g eq ge f retry_loop_counts[OF l] by blast
qed

theorem rotations_bounded_by_pool_witness:
  "1 < length (api_keys pool2)
   \<and> generate (failing_world quota_error) hello pool2 =
      (Inr \<lparr>rtext = [], success = False, tokens_used = 0,
            error = Some ''429 Resource Exhausted: Quota exceeded''\<rparr>,
       pool2\<lparr>key_cooldowns := [0 \<mapsto> 1700000000, 1 \<mapsto> 1700000001], current_key_index := Suc 0,
             genai_api_key := ''key-b''\<rparr>,
       [EGenerateContent 0 ''key-a'' ''gemini-2.0-flash'' ''a b c'' (GenerationConfig 0.7 2000 None),
        ERotateKey 1700000000,
        EGenerateContent 1 ''key-b'' ''gemini-2.0-flash'' ''a b c'' (GenerationConfig 0.7 2000 None),
        ERotateKey 1700000001] @ [EFallbackAttempt])"
proof -
  have h: "\<forall>k key m. \<exists>e. generate_content (failing_world quota_error) k key m (prompt hello) (make_config hello) = Inl e
      \<and> is_rate_limit e"
    using quota_is_rate_limit by (simp add: failing_world_def)
  have n: "1 < length (api_keys pool2)" by (simp add: pool2_def)
  have a: "attempt (failing_world quota_error) hello k s = Inl quota_error" for k s
    by (simp add: attempt_def and_then_def failing_world_def)
  have t: "time (failing_world quota_error) 0 = 1700000000" "time (failing_world quota_error) (Suc 0) = 1700000001"
    by (simp_all add: failing_world_def)
  have f: "cloudflare_fallback (failing_world quota_error) hello = (None, [EFallbackAttempt])"
    by (simp add: cloudflare_fallback_def failing_world_def)
  have r0: "rotate_key 1700000000 pool2 =
      (Inr True, pool2\<lparr>key_cooldowns := [0 \<mapsto> 1700000000], current_key_index := Suc 0, genai_api_key := ''key-b''\<rparr>)"
    by (simp add: rotate_key_def pool2_def configure_current_key_def cooldown_get_def Let_def)
  have r1: "rotate_key 1700000001
        (pool2\<lparr>key_cooldowns := [0 \<mapsto> 1700000000], current_key_index := Suc 0, genai_api_key := ''key-b''\<rparr>) =
      (Inr False, pool2\<lparr>key_cooldowns := [0 \<mapsto> 1700000000, 1 \<mapsto> 1700000001], current_key_index := Suc 0,
             genai_api_key := ''key-b''\<rparr>)"
    by (simp add: rotate_key_def pool2_def configure_current_key_def cooldown_get_def Let_def)
  have l: "length (api_keys pool2) = Suc (Suc 0)" by (simp add: pool2_def)
  let ?s1 = "pool2\<lparr>key_cooldowns := [0 \<mapsto> 1700000000], current_key_index := Suc 0, genai_api_key := ''key-b''\<rparr>"
  let ?s2 = "pool2\<lparr>key_cooldowns := [0 \<mapsto> 1700000000, 1 \<mapsto> 1700000001], current_key_index := Suc 0,
             genai_api_key := ''key-b''\<rparr>"
  have g0: "generate (failing_world quota_error) hello pool2 =
      (Inr (failure_result (Some quota_error)), ?s2,
       [provider_event hello 0 pool2, ERotateKey 1700000000,
        provider_event hello (Suc 0) ?s1, ERotateKey 1700000001] @ [EFallbackAttempt])"
    unfolding generate_def l
    using quota_is_rate_limit
    by (simp add: a t r0 r1 f)
  have ev: "provider_event hello 0 pool2 =
       EGenerateContent 0 ''key-a'' ''gemini-2.0-flash'' ''a b c'' (GenerationConfig 0.7 2000 None)"
     "provider_event hello (Suc 0) ?s1 =
       EGenerateContent 1 ''key-b'' ''gemini-2.0-flash'' ''a b c'' (GenerationConfig 0.7 2000 None)"
    by (simp_all add: provider_event_def make_config_def hello_def pool2_def)
  have fr: "failure_result (Some quota_error) = \<lparr>rtext = [], success = False, tokens_used = 0,
            error = Some ''429 Resource Exhausted: Quota exceeded''\<rparr>"
    by (simp add: failure_result_def str_last_error_def quota_error_def)
  have g: "generate (failing_world quota_error) hello pool2 =
      (Inr \<lparr>rtext = [], success = False, tokens_used = 0,
            error = Some ''429 Resource Exhausted: Quota exceeded''\<rparr>,
       pool2\<lparr>key_cooldowns := [0 \<mapsto> 1700000000, 1 \<mapsto> 1700000001], current_key_index := Suc 0,
             genai_api_key := ''key-b''\<rparr>,
       [EGenerateContent 0 ''key-a'' ''gemini-2.0-flash'' ''a b c'' (GenerationConfig 0.7 2000 None),
        ERotateKey 1700000000,
        EGenerateContent 1 ''key-b'' ''gemini-2.0-flash'' ''a b c'' (GenerationConfig 0.7 2000 None),
        ERotateKey 1700000001] @ [EFallbackAttempt])"
    unfolding g0 ev fr by simp
  show ?thesis
    using rotations_bounded_by_pool[OF n h] g n by simp
qed

text \<open>
  The bound N - 1 does not hold. With two keys, every provider call rate-limited and the
  second rotation 61 seconds after the first, the first rotation moves to the second key
  and the second rotation moves back to the first key, whose cooldown has run out: the
  rotation is invoked twice before the loop is exhausted and the fallback is entered.
\<close>

theorem rotations_exceed_pool_minus_one:
  "length (api_keys pool2) = 2
   \<and> generate_content slow_world 0 ''key-a'' ''gemini-2.0-flash'' ''a b c'' (GenerationConfig 0.7 2000 None) = Inl quota_error
   \<and> generate_content slow_world 1 ''key-b'' ''gemini-2.0-flash'' ''a b c'' (GenerationConfig 0.7 2000 None) = Inl quota_error
   \<and> is_rate_limit quota_error
   \<and> snd (snd (generate slow_world hello pool2)) =
       [EGenerateContent 0 ''key-a'' ''gemini-2.0-flash'' ''a b c'' (GenerationConfig 0.7 2000 None),
        ERotateKey 1700000000,
        EGenerateContent 1 ''key-b'' ''gemini-2.0-flash'' ''a b c'' (GenerationConfig 0.7 2000 None),
        ERotateKey 1700000061,
        EFallbackAttempt]
   \<and> length (filter is_rotate (snd (snd (generate slow_world hello pool2)))) = 2
   \<and> \<not> length (filter is_rotate (snd (snd (generate slow_world hello pool2)))) \<le> length (api_keys pool2) - 1"
proof -
  have a: "attempt slow_world hello k s = Inl quota_error" for k s
    by (simp add: attempt_def and_then_def slow_world_def)
  have t: "time slow_world 0 = 1700000000" "time slow_world (Suc 0) = 1700000061"
    by (simp_all add: slow_world_def)
  have f: "cloudflare_fallback slow_world hello = (None, [EFallbackAttempt])"
    by (simp add: cloudflare_fallback_def slow_world_def)
  have r0: "rotate_key 1700000000 pool2 =
      (Inr True, pool2\<lparr>key_cooldowns := [0 \<mapsto> 1700000000], current_key_index := Suc 0, genai_api_key := ''key-b''\<rparr>)"
    by (simp add: rotate_key_def pool2_def configure_current_key_def cooldown_get_def Let_def)
  have r1: "rotate_key 1700000061
        (pool2\<lparr>key_cooldowns := [0 \<mapsto> 1700000000], current_key_index := Suc 0, genai_api_key := ''key-b''\<rparr>) =
      (Inr True, pool2\<lparr>key_cooldowns := [0 \<mapsto> 1700000000, 1 \<mapsto> 1700000061], current_key_index := 0,
             genai_api_key := ''key-a''\<rparr>)"
    by (simp add: rotate_key_def pool2_def configure_current_key_def cooldown_get_def Let_def)
  have l: "length (api_keys pool2) = Suc (Suc 0)" by (simp add: pool2_def)
  let ?s1 = "pool2\<lparr>key_cooldowns := [0 \<mapsto> 1700000000], current_key_index := Suc 0, genai_api_key := ''key-b''\<rparr>"
  have g0: "snd (snd (generate slow_world hello pool2)) =
       [provider_event hello 0 pool2, ERotateKey 1700000000,
        provider_event hello (Suc 0) ?s1, ERotateKey 1700000061, EFallbackAttempt]"
    unfolding generate_def l
    using quota_is_rate_limit
    by (simp add: a t r0 r1 f)
  have ev: "provider_event hello 0 pool2 =
       EGenerateContent 0 ''key-a'' ''gemini-2.0-flash'' ''a b c'' (GenerationConfig 0.7 2000 None)"
     "provider_event hello (Suc 0) ?s1 =
       EGenerateContent 1 ''key-b'' ''gemini-2.0-flash'' ''a b c'' (GenerationConfig 0.7 2000 None)"
    by (simp_all add: provider_event_def make_config_def hello_def pool2_def)
  have g: "snd (snd (generate slow_world hello pool2)) =
       [EGenerateContent 0 ''key-a'' ''gemini-2.0-flash'' ''a b c'' (GenerationConfig 0.7 2000 None),
        ERotateKey 1700000000,
        EGenerateContent 1 ''key-b'' ''gemini-2.0-flash'' ''a b c'' (GenerationConfig 0.7 2000 None),
        ERotateKey 1700000061,
        EFallbackAttempt]"
    unfolding g0 ev by simp
  show ?thesis
    unfolding g using quota_is_rate_limit
    by (simp add: pool2_def slow_world_def is_rotate_def)
qed


subsection \<open>The active index\<close>

lemma init_valid:
  assumes "init ks sk = Inr s"
  shows "current_key_index s = 0 \<and> 0 < length (api_keys s)"
  using assms
  by (auto simp: init_def Let_def configure_current_key_def split: if_splits)

lemma rotate_key_valid_index: "valid_index s \<Longrightarrow> valid_index (snd (rotate_key now s))"
  unfolding valid_index_def using rotate_key_valid[of s now] by (simp add: rotate_key_api_keys)

lemma apply_rotations_valid: "valid_index s \<Longrightarrow> valid_index (apply_rotations s ts)"
  unfolding apply_rotations_def
  by (induction ts arbitrary: s) (simp_all add: rotate_key_valid_index)

lemma rotation_times_append: "rotation_times (xs @ ys) = rotation_times xs @ rotation_times ys"
  by (induction xs rule: rotation_times.induct) simp_all

lemma rotation_times_fallback: "rotation_times (snd (cloudflare_fallback w rq)) = []"
  by (simp add: fallback_trace)

lemma generate_state:
  "fst (snd (generate w rq s)) = apply_rotations s (rotation_times (snd (snd (generate w rq s))))"
proof -
  from generate_cases[of w rq s] show ?thesis
  proof (elim disjE exE conjE)
    fix res s' tr
    assume g: "generate w rq s = (Inr res, s', tr)"
       and l: "retry_loop (length (api_keys s)) w rq 0 None s = (Return res, s', tr)"
    show ?thesis using retry_loop_state[OF l] g by simp
  next
    fix le s' tr
    assume l: "retry_loop (length (api_keys s)) w rq 0 None s = (Break le, s', tr)"
       and g: "generate w rq s =
           (Inr (case fst (cloudflare_fallback w rq) of Some fres \<Rightarrow> fres | None \<Rightarrow> failure_result le),
            s', tr @ snd (cloudflare_fallback w rq))"
    show ?thesis using retry_loop_state[OF l] g
      by (simp add: rotation_times_append rotation_times_fallback)
  qed
qed

lemma chat_state:
  "fst (snd (chat w messages temp maxtok s)) =
     fst (snd (generate w \<lparr>prompt = messages_to_prompt messages, temperature = temp,
                           max_tokens = maxtok, stop = None\<rparr> s))
   \<and> snd (snd (chat w messages temp maxtok s)) =
     snd (snd (generate w \<lparr>prompt = messages_to_prompt messages, temperature = temp,
                           max_tokens = maxtok, stop = None\<rparr> s))"
  by (simp add: chat_def split: prod.splits sum.splits)

lemma reachable_valid: "reachable s \<Longrightarrow> valid_index s"
proof (induction rule: reachable.induct)
  case (constructed api_keys_str single_key s)
  then show ?case using init_valid by (simp add: valid_index_def)
next
  case (rotated s now)
  then show ?case by (simp add: rotate_key_valid_index)
next
  case (generated s w rq)
  then show ?case unfolding generate_state by (simp add: apply_rotations_valid)
next
  case (chatted s w messages temp maxtok)
  then show ?case using chat_state[of w messages temp maxtok s] generate_state apply_rotations_valid
    by metis
next
  case (inspected s)
  then show ?case by (simp add: get_status_def)
qed

lemma rotate_key_True_eligible:
  assumes "rotate_key now s = (Inr True, s')"
  shows "eligible now (mark_current now s) (current_key_index s')"
proof (cases "1 < length (api_keys s)")
  case True
  then have "spec_rotate now s = (Inr True, s')" using assms by (simp add: rotate_key_refines)
  from spec_rotate_True[OF this] show ?thesis
    by (auto simp: select_key_def)
next
  case False
  then show ?thesis using assms by (simp add: rotate_key_def)
qed

lemma rotate_key_False_index:
  assumes "rotate_key now s = (Inr False, s')"
  shows "current_key_index s' = current_key_index s"
proof (cases "1 < length (api_keys s)")
  case True
  then have "spec_rotate now s = (Inr False, s')" using assms by (simp add: rotate_key_refines)
  from spec_rotate_False[OF this] show ?thesis
    by (simp add: mark_current_def)
next
  case False
  then show ?thesis using assms by (auto simp: rotate_key_def)
qed

text \<open>
  C7. In every state a client instance can be in (after construction and after any
  sequence of rotations, \<open>generate\<close>, \<open>chat\<close> and \<open>get_status\<close> calls) the active
  index is below the pool size; construction sets it to 0; the state \<open>generate\<close> and
  \<open>chat\<close> leave is the state reached by the rotations of their log and nothing else,
  and \<open>get_status\<close> changes nothing; a rotation never raises, keeps the pool, and
  either moves the active index to a valid eligible index or leaves it at the original
  one when it fails.
\<close>

theorem active_index_invariant:
  "(reachable s \<longrightarrow> current_key_index s < length (api_keys s))
   \<and> (\<forall>ks sk s0. init ks sk = Inr s0 \<longrightarrow> current_key_index s0 = 0 \<and> 0 < length (api_keys s0))
   \<and> fst (snd (generate w rq s)) = apply_rotations s (rotation_times (snd (snd (generate w rq s))))
   \<and> fst (snd (chat w messages temp maxtok s)) =
       apply_rotations s (rotation_times (snd (snd (chat w messages temp maxtok s))))
   \<and> snd (get_status s) = s
   \<and> (\<exists>b. fst (rotate_key now s) = Inr b)
   \<and> api_keys (snd (rotate_key now s)) = api_keys s
   \<and> (current_key_index s < length (api_keys s) \<longrightarrow>
        current_key_index (snd (rotate_key now s)) < length (api_keys s))
   \<and> (\<forall>s'. rotate_key now s = (Inr True, s') \<longrightarrow>
        eligible now (mark_current now s) (current_key_index s'))
   \<and> (\<forall>s'. rotate_key now s = (Inr False, s') \<longrightarrow> current_key_index s' = current_key_index s)"
proof -
  have a: "reachable s \<longrightarrow> current_key_index s < length (api_keys s)"
    using reachable_valid by (simp add: valid_index_def)
  have b: "\<forall>ks sk s0. init ks sk = Inr s0 \<longrightarrow> current_key_index s0 = 0 \<and> 0 < length (api_keys s0)"
    using init_valid by blast
  have c: "fst (snd (chat w messages temp maxtok s)) =
       apply_rotations s (rotation_times (snd (snd (chat w messages temp maxtok s))))"
    using chat_state[of w messages temp maxtok s] generate_state by metis
  have d: "snd (get_status s) = s" by (simp add: get_status_def)
  have e: "\<exists>b. fst (rotate_key now s) = Inr b"
    using rotate_key_cases[of now s] by (metis fst_conv)
  have f: "current_key_index s < length (api_keys s) \<longrightarrow>
        current_key_index (snd (rotate_key now s)) < length (api_keys s)"
    using rotate_key_valid by blast
  show ?thesis
    using a b generate_state[of w rq s] c d e rotate_key_api_keys[of now s] f
      rotate_key_True_eligible rotate_key_False_index
    by blast
qed

theorem active_index_invariant_witness:
  "init ''key-a, key-b'' [] = Inr pool2
   \<and> reachable pool2
   \<and> current_key_index pool2 < length (api_keys pool2)
   \<and> snd (get_status pool2) = pool2"
proof -
  have s: "split_on CHR '','' ''key-a, key-b'' = [''key-a'', '' key-b'']"
    by simp
  have st: "strip ''key-a'' = ''key-a''" "strip '' key-b'' = ''key-b''"
    by (simp_all add: strip_def isspace_def)
  have i: "init ''key-a, key-b'' [] = Inr pool2"
    unfolding init_def s by (simp add: st configure_current_key_def pool2_def)
  have r: "reachable pool2" by (rule reachable.constructed[OF i])
  show ?thesis
    using active_index_invariant[of pool2] i r by simp
qed


subsection \<open>The seeder\<close>

lemma find_None_list_ex: "(find p xs = None) = (\<not> list_ex p xs)"
  by (auto simp: find_None_iff list_ex_iff)

lemma seeder_body_cases:
  "seeder_body f d = (r, d', out, ops) \<Longrightarrow>
     (\<exists>rest. ops = OpQueryEmail ''admin@test.com'' # rest
        \<and> (filter is_add rest \<noteq> [] \<longrightarrow> hd rest = OpQueryUsername ''admin''))
   \<and> (admin_exists (users d) \<longrightarrow> d' = d \<and> filter is_add ops = [])
   \<and> (admin_exists (users d) \<and> f (OpQueryEmail ''admin@test.com'') = None
        \<and> f (OpQueryUsername ''admin'') = None \<longrightarrow>
        r = Inr () \<and> (out = [''Admin user already exists!'']
                     \<or> out = [''Admin user (by username) already exists!'']))
   \<and> (list_ex (\<lambda>u. email u = ''admin@test.com'') (users d) \<and> f (OpQueryEmail ''admin@test.com'') = None \<longrightarrow>
        r = Inr () \<and> out = [''Admin user already exists!''])
   \<and> (users d' = users d \<or> (users d' = users d @ pending d @ [admin_user] \<and> r = Inr ()))"
  by (auto simp: seeder_body_def Let_def query_first_def admin_exists_def find_None_list_ex
        is_add_def db_add_def db_commit_def
        split: option.splits)

lemma create_admin_user_cases:
  assumes "create_admin_user f store = (r, store', out, ops)"
  shows "(f OpSessionLocal = None \<longrightarrow>
           (\<exists>rest. ops = OpSessionLocal # OpQueryEmail ''admin@test.com'' # rest
              \<and> (filter is_add rest \<noteq> [] \<longrightarrow> hd rest = OpQueryUsername ''admin'')))
       \<and> (admin_exists store \<longrightarrow> store' = store \<and> filter is_add ops = [])
       \<and> (admin_exists store \<and> f OpSessionLocal = None \<and> f (OpQueryEmail ''admin@test.com'') = None
            \<and> f (OpQueryUsername ''admin'') = None \<and> f OpClose = None \<longrightarrow>
            r = Inr () \<and> (out = [''Admin user already exists!'']
                           \<or> out = [''Admin user (by username) already exists!'']))
       \<and> (list_ex (\<lambda>u. email u = ''admin@test.com'') store \<and> f OpSessionLocal = None
            \<and> f (OpQueryEmail ''admin@test.com'') = None \<and> f OpClose = None \<longrightarrow>
            r = Inr () \<and> out = [''Admin user already exists!''])
       \<and> (store' = store \<or> store' = store @ [admin_user])"
proof (cases "f OpSessionLocal")
  case (Some e)
  then show ?thesis using assms by (auto simp: create_admin_user_def is_add_def)
next
  case None
  obtain rb db outb opsb where b: "seeder_body f \<lparr>users = store, pending = []\<rparr> = (rb, db, outb, opsb)"
    by (metis prod_cases4)
  from seeder_body_cases[OF b] obtain rest0 where
    o: "opsb = OpQueryEmail ''admin@test.com'' # rest0"
       "filter is_add rest0 \<noteq> [] \<longrightarrow> hd rest0 = OpQueryUsername ''admin''"
    and ex: "admin_exists store \<longrightarrow> db = \<lparr>users = store, pending = []\<rparr> \<and> filter is_add opsb = []"
    and msg: "admin_exists store \<and> f (OpQueryEmail ''admin@test.com'') = None
        \<and> f (OpQueryUsername ''admin'') = None \<longrightarrow>
        rb = Inr () \<and> (outb = [''Admin user already exists!'']
                     \<or> outb = [''Admin user (by username) already exists!''])"
    and msg1: "list_ex (\<lambda>u. email u = ''admin@test.com'') store \<and> f (OpQueryEmail ''admin@test.com'') = None \<longrightarrow>
        rb = Inr () \<and> outb = [''Admin user already exists!'']"
    and st: "users db = store \<or> (users db = store @ [admin_user] \<and> rb = Inr ())"
    by auto
  have fin: "store' = users db
      \<and> (\<exists>xs. ops = OpSessionLocal # opsb @ xs \<and> filter is_add xs = [])
      \<and> (rb = Inr () \<and> f OpClose = None \<longrightarrow> r = Inr () \<and> out = outb)"
    using assms None b
    by (cases rb; cases "f OpRollback"; cases "f OpClose")
       (auto simp: create_admin_user_def db_rollback_def is_add_def)
  then obtain xs where xs: "ops = OpSessionLocal # opsb @ xs" "filter is_add xs = []" by blast
  have p1: "\<exists>rest. ops = OpSessionLocal # OpQueryEmail ''admin@test.com'' # rest
              \<and> (filter is_add rest \<noteq> [] \<longrightarrow> hd rest = OpQueryUsername ''admin'')"
  proof -
    have "ops = OpSessionLocal # OpQueryEmail ''admin@test.com'' # (rest0 @ xs)"
      using xs(1) o(1) by simp
    moreover have "filter is_add (rest0 @ xs) \<noteq> [] \<longrightarrow> hd (rest0 @ xs) = OpQueryUsername ''admin''"
      using o(2) xs(2) by (cases rest0) auto
    ultimately show ?thesis by blast
  qed
  have p2: "admin_exists store \<longrightarrow> store' = store \<and> filter is_add ops = []"
    using ex fin xs by (auto simp: is_add_def)
  have p3: "admin_exists store \<and> f OpSessionLocal = None \<and> f (OpQueryEmail ''admin@test.com'') = None
            \<and> f (OpQueryUsername ''admin'') = None \<and> f OpClose = None \<longrightarrow>
            r = Inr () \<and> (out = [''Admin user already exists!'']
                           \<or> out = [''Admin user (by username) already exists!''])"
    using msg fin by blast
  have p4: "list_ex (\<lambda>u. email u = ''admin@test.com'') store \<and> f OpSessionLocal = None
            \<and> f (OpQueryEmail ''admin@test.com'') = None \<and> f OpClose = None \<longrightarrow>
            r = Inr () \<and> out = [''Admin user already exists!'']"
    using msg1 fin by blast
  have p5: "store' = store \<or> store' = store @ [admin_user]"
    using st fin by auto
  show ?thesis using p1 p2 p3 p4 p5 by blast
qed

text \<open>
  C9. Every invocation of the seeder that gets a session queries the store by the fixed
  email first and, when that finds nothing, by the fixed username, before any insert.
  When a record with the fixed email or the fixed username exists, the invocation
  inserts nothing and leaves the store as it was, and with the lookups answering it
  returns after printing that the admin user already exists. An invocation changes the
  store at most by appending the admin record; after a first invocation that did so, a
  second one finds the account, inserts nothing and leaves the store unchanged.
\<close>

theorem seeder_idempotent:
  assumes "create_admin_user f1 store = (r1, store1, out1, ops1)"
      and "create_admin_user f2 store1 = (r2, store2, out2, ops2)"
  shows "(f1 OpSessionLocal = None \<longrightarrow>
           (\<exists>rest. ops1 = OpSessionLocal # OpQueryEmail ''admin@test.com'' # rest
              \<and> (filter is_add rest \<noteq> [] \<longrightarrow> hd rest = OpQueryUsername ''admin'')))
       \<and> (admin_exists store \<longrightarrow> store1 = store \<and> filter is_add ops1 = [])
       \<and> (admin_exists store \<and> f1 OpSessionLocal = None \<and> f1 (OpQueryEmail ''admin@test.com'') = None
            \<and> f1 (OpQueryUsername ''admin'') = None \<and> f1 OpClose = None \<longrightarrow>
            r1 = Inr () \<and> (out1 = [''Admin user already exists!'']
                           \<or> out1 = [''Admin user (by username) already exists!'']))
       \<and> (store1 = store \<or> store1 = store @ [admin_user])
       \<and> (store1 \<noteq> store \<longrightarrow> admin_exists store1 \<and> store2 = store1 \<and> filter is_add ops2 = [])
       \<and> (store1 \<noteq> store \<and> f2 OpSessionLocal = None \<and> f2 (OpQueryEmail ''admin@test.com'') = None
            \<and> f2 OpClose = None \<longrightarrow>
            r2 = Inr () \<and> out2 = [''Admin user already exists!''])"
proof -
  note c1 = create_admin_user_cases[OF assms(1)]
  note c2 = create_admin_user_cases[OF assms(2)]
  note t1 = c1[THEN conjunct1]
  note t2 = c1[THEN conjunct2, THEN conjunct1]
  note t3 = c1[THEN conjunct2, THEN conjunct2, THEN conjunct1]
  note t4 = c1[THEN conjunct2, THEN conjunct2, THEN conjunct2, THEN conjunct2]
  note u2 = c2[THEN conjunct2, THEN conjunct1]
  note u4 = c2[THEN conjunct2, THEN conjunct2, THEN conjunct2, THEN conjunct1]
  have ad: "admin_exists (store @ [admin_user])"
    by (simp add: admin_exists_def admin_user_def)
  have ad1: "list_ex (\<lambda>u. email u = ''admin@test.com'') (store @ [admin_user])"
    by (simp add: admin_user_def)
  have s1: "store1 \<noteq> store \<longrightarrow> store1 = store @ [admin_user]" using t4 by blast
  have p5: "store1 \<noteq> store \<longrightarrow> admin_exists store1 \<and> store2 = store1 \<and> filter is_add ops2 = []"
    using s1 ad u2 by auto
  have p6: "store1 \<noteq> store \<and> f2 OpSessionLocal = None \<and> f2 (OpQueryEmail ''admin@test.com'') = None
            \<and> f2 OpClose = None \<longrightarrow>
            r2 = Inr () \<and> out2 = [''Admin user already exists!'']"
    using s1 ad1 u4 by auto
  show ?thesis
    using t1 t2 t3 t4 p5 p6 by (intro conjI) assumption+
qed

theorem seeder_idempotent_witness:
  "create_admin_user no_faults [] =
     (Inr (), [admin_user],
      [check_mark @ '' Admin user created successfully!'', ''   Email: admin@test.com'',
       ''   Password: Admin@123''],
      [OpSessionLocal, OpQueryEmail ''admin@test.com'', OpQueryUsername ''admin'', OpAdd admin_user,
       OpCommit, OpClose])
   \<and> create_admin_user no_faults [admin_user] =
     (Inr (), [admin_user], [''Admin user already exists!''],
      [OpSessionLocal, OpQueryEmail ''admin@test.com'', OpClose])
   \<and> admin_exists [admin_user]
   \<and> filter is_add [OpSessionLocal, OpQueryEmail ''admin@test.com'', OpClose] = []"
proof -
  have b1: "seeder_body no_faults \<lparr>users = [], pending = []\<rparr> =
     (Inr (), \<lparr>users = [admin_user], pending = []\<rparr>,
      [check_mark @ '' Admin user created successfully!'', ''   Email: admin@test.com'',
       ''   Password: Admin@123''],
      [OpQueryEmail ''admin@test.com'', OpQueryUsername ''admin'', OpAdd admin_user, OpCommit])"
    by (simp add: seeder_body_def no_faults_def query_first_def db_add_def db_commit_def Let_def)
  have em: "email admin_user = ''admin@test.com''" by (simp add: admin_user_def)
  have b2: "seeder_body no_faults \<lparr>users = [admin_user], pending = []\<rparr> =
     (Inr (), \<lparr>users = [admin_user], pending = []\<rparr>, [''Admin user already exists!''],
      [OpQueryEmail ''admin@test.com''])"
    by (simp add: seeder_body_def no_faults_def query_first_def Let_def em)
  have r1: "create_admin_user no_faults [] =
     (Inr (), [admin_user],
      [check_mark @ '' Admin user created successfully!'', ''   Email: admin@test.com'',
       ''   Password: Admin@123''],
      [OpSessionLocal, OpQueryEmail ''admin@test.com'', OpQueryUsername ''admin'', OpAdd admin_user,
       OpCommit, OpClose])"
    unfolding create_admin_user_def b1 by (simp add: no_faults_def)
  have r2: "create_admin_user no_faults [admin_user] =
     (Inr (), [admin_user], [''Admin user already exists!''],
      [OpSessionLocal, OpQueryEmail ''admin@test.com'', OpClose])"
    unfolding create_admin_user_def b2 by (simp add: no_faults_def)
  have ne: "[admin_user] \<noteq> []" by simp
  note t = seeder_idempotent[OF r1 r2, THEN conjunct2, THEN conjunct2, THEN conjunct2,
      THEN conjunct2, THEN conjunct1, THEN mp, OF ne]
  show ?thesis
    using r1 r2 t[THEN conjunct1] t[THEN conjunct2, THEN conjunct2]
    by (intro conjI) assumption+
qed


end
